theory Spec2Isabelle
  imports Complex_Main "HOL-Library.Word" "HOL-Library.Signed_Division"
begin

section \<open>Time primitives (pc/ext/timestamp.hpp)\<close>

text \<open>
  \<^verbatim>\<open>timestamp\<close> is \<^verbatim>\<open>uint64_t\<close> and \<^verbatim>\<open>nsecs\<close> is \<^verbatim>\<open>int64_t\<close>. Both are 64-bit
  words here; a \<^verbatim>\<open>timestamp\<close> is read with \<open>unat\<close>/\<open>uint\<close> and compared with \<open><\<close>, an
  \<^verbatim>\<open>nsecs\<close> is read with \<open>sint\<close> and compared with \<open><s\<close>. Signed arithmetic is modelled
  with two's-complement wrap-around.
\<close>

type_synonym timestamp = "64 word"
type_synonym nsecs = "64 word"

definition NS_PER_US :: nsecs where "NS_PER_US = 1000"
definition NS_PER_MS :: nsecs where "NS_PER_MS = NS_PER_US * 1000"
definition NS_PER_SEC :: nsecs where "NS_PER_SEC = NS_PER_MS * 1000"
definition NS_PER_MIN :: nsecs where "NS_PER_MIN = NS_PER_SEC * 60"
definition NS_PER_HOUR :: nsecs where "NS_PER_HOUR = NS_PER_MIN * 60"
definition NS_PER_DAY :: nsecs where "NS_PER_DAY = NS_PER_HOUR * 24"
definition NS_PER_YEAR :: nsecs where "NS_PER_YEAR = NS_PER_DAY * 365"

text \<open>\<^verbatim>\<open>static_cast< nsecs >( ts )\<close>: the same bits, read as signed.\<close>

definition as_ns :: "timestamp \<Rightarrow> nsecs" where
  "as_ns ts = ts"

definition add_time :: "timestamp \<Rightarrow> nsecs \<Rightarrow> timestamp" where
  "add_time ts ns = as_ns ts + ns"

definition diff_times :: "timestamp \<Rightarrow> timestamp \<Rightarrow> nsecs" where
  "diff_times ts1 ts2 = as_ns ts1 - as_ns ts2"

text \<open>C++ \<^verbatim>\<open>/\<close> on \<^verbatim>\<open>int64_t\<close>: the quotient of the signed values, truncated towards zero.\<close>

definition nsecs_div :: "nsecs \<Rightarrow> nsecs \<Rightarrow> nsecs" where
  "nsecs_div a b = word_of_int (sint a sdiv sint b)"

definition floor_time :: "timestamp \<Rightarrow> nsecs \<Rightarrow> timestamp" where
  "floor_time ts interval = nsecs_div (as_ns ts) interval * interval"

section \<open>Failure signalling (pc/ext/verify.hpp, pctest/usage.hpp)\<close>

text \<open>
  \<^verbatim>\<open>PC_ASSERT\<close> throws an \<^verbatim>\<open>assertion_error\<close> naming the failed expression;
  \<^verbatim>\<open>PC_USAGE\<close> throws the same error with the usage text appended. A function that can
  throw returns \<open>error + 'a\<close>, with \<open>Inl\<close> the error.
\<close>

datatype error = Assertion string | Usage string

section \<open>Prices, trades and the tracker interface (pc/ext/price_model.hpp)\<close>

text \<open>
  \<^verbatim>\<open>price_val\<close> is \<^verbatim>\<open>int64_t\<close>, read with \<open>sint\<close>. \<^verbatim>\<open>price_interval\<close> is \<^verbatim>\<open>double\<close>. A
  \<^verbatim>\<open>double\<close> that comes from the inputs (a price, a configured value, an expected
  confidence) or from sums and logarithms of such values is finite and is a real number:
  arithmetic on these is exact, rounding is outside the model. The volatility and the
  confidence are computed with a division and a square root that can leave the finite
  numbers; they are values of the type \<open>double\<close> below, which has the infinities and NaN.
\<close>

type_synonym price_val = "64 word"
type_synonym price_interval = real

definition as_interval :: "64 word \<Rightarrow> price_interval" where
  "as_interval x = real_of_int (sint x)"

datatype double = Finite price_interval | PosInf | NegInf | NaN

text \<open>
  \<^verbatim>\<open>a / b\<close> on two finite values (a zero divisor is \<open>+0\<close> here: a sum of finite values that
  cancels), \<^verbatim>\<open>a * r\<close> with \<open>r\<close> finite, \<^verbatim>\<open>std::sqrt\<close>, and \<^verbatim>\<open>std::max( a, b )\<close> with \<open>b\<close>
  finite, which is \<^verbatim>\<open>( a < b ) ? b : a\<close> and so keeps a NaN in \<open>a\<close>; then \<^verbatim>\<open>a >= b\<close> and
  \<^verbatim>\<open>a <= b\<close> with \<open>b\<close> finite.
\<close>

definition double_div :: "price_interval \<Rightarrow> price_interval \<Rightarrow> double" where
  "double_div a b =
    (if b = 0 then (if a = 0 then NaN else if 0 < a then PosInf else NegInf)
     else Finite (a / b))"

fun double_times :: "double \<Rightarrow> price_interval \<Rightarrow> double" where
  "double_times (Finite a) r = Finite (a * r)"
| "double_times PosInf r = (if 0 < r then PosInf else if r < 0 then NegInf else NaN)"
| "double_times NegInf r = (if 0 < r then NegInf else if r < 0 then PosInf else NaN)"
| "double_times NaN r = NaN"

fun double_sqrt :: "double \<Rightarrow> double" where
  "double_sqrt (Finite a) = (if a < 0 then NaN else Finite (sqrt a))"
| "double_sqrt PosInf = PosInf"
| "double_sqrt NegInf = NaN"
| "double_sqrt NaN = NaN"

fun double_max :: "double \<Rightarrow> price_interval \<Rightarrow> double" where
  "double_max (Finite a) b = Finite (if a < b then b else a)"
| "double_max PosInf b = PosInf"
| "double_max NegInf b = Finite b"
| "double_max NaN b = NaN"

fun double_ge :: "double \<Rightarrow> price_interval \<Rightarrow> bool" where
  "double_ge (Finite a) b = (b \<le> a)"
| "double_ge PosInf b = True"
| "double_ge NegInf b = False"
| "double_ge NaN b = False"

fun double_le :: "double \<Rightarrow> price_interval \<Rightarrow> bool" where
  "double_le (Finite a) b = (a \<le> b)"
| "double_le PosInf b = False"
| "double_le NegInf b = True"
| "double_le NaN b = False"

text \<open>\<^verbatim>\<open>std::max\<close> and \<^verbatim>\<open>std::min\<close> on \<^verbatim>\<open>int64_t\<close>.\<close>

definition std_max :: "64 word \<Rightarrow> 64 word \<Rightarrow> 64 word" where
  "std_max a b = (if a <s b then b else a)"

definition std_min :: "64 word \<Rightarrow> 64 word \<Rightarrow> 64 word" where
  "std_min a b = (if b <s a then b else a)"

text \<open>Fields \<^verbatim>\<open>price_\<close>, \<^verbatim>\<open>time_\<close> of \<^verbatim>\<open>price_time\<close>.\<close>

record price_time =
  price :: price_val
  time :: timestamp

text \<open>Fields \<^verbatim>\<open>price_\<close>, \<^verbatim>\<open>conf_\<close> of \<^verbatim>\<open>price_estimate\<close>.\<close>

record price_estimate =
  est_price :: price_val
  conf :: double

record price_range =
  high :: price_val
  low :: price_val

definition price_range_open :: "price_val \<Rightarrow> price_range" where
  "price_range_open opn = \<lparr>high = opn, low = opn\<rparr>"

definition add_price :: "price_val \<Rightarrow> price_range \<Rightarrow> price_range" where
  "add_price p r = \<lparr>high = std_max (high r) p, low = std_min (low r) p\<rparr>"

definition interval :: "price_range \<Rightarrow> price_interval" where
  "interval r = as_interval (high r - low r) / 2"

text \<open>
  \<^verbatim>\<open>trade_tracker< T >\<close>: the two virtual methods, over the state \<open>'m\<close> of the object that
  implements them. \<^verbatim>\<open>eval_at_time\<close> is not \<^verbatim>\<open>const\<close>, so it returns the new state too.
\<close>

record ('m, 'r) trade_tracker =
  tt_add_trade :: "price_time \<Rightarrow> 'm \<Rightarrow> error + 'm"
  tt_eval_at_time :: "timestamp \<Rightarrow> 'm \<Rightarrow> error + ('r \<times> 'm)"

type_synonym 'm price_model = "('m, price_estimate option) trade_tracker"
type_synonym 'v volatility_model = "('v, double option) trade_tracker"

section \<open>The candle model (pc/ext/candle_model.hpp, pc/ext/candle_model.cpp)\<close>

text \<open>
  The \<^verbatim>\<open>size_t\<close> fields are natural numbers; the constructor's \<^verbatim>\<open>1 + lookback\<close>, the one
  place where a \<^verbatim>\<open>size_t\<close> can wrap, is computed on 64-bit words. The three vectors are
  lists of length \<open>capacity\<close>.
\<close>

record candle_model =
  capacity :: nat
  candle_ns :: nsecs
  count :: nat
  front :: nat
  starts :: "timestamp list"
  highs :: "price_interval list"
  lows :: "price_interval list"

definition DEFAULT_LOOKBACK :: "64 word" where "DEFAULT_LOOKBACK = 20"
definition DEFAULT_DURATION :: nsecs where "DEFAULT_DURATION = NS_PER_MIN * 1"

definition candle_model_init :: "64 word option \<Rightarrow> nsecs option \<Rightarrow> error + candle_model" where
  "candle_model_init lookback candle_ns_arg =
    (let cap = unat (1 + (case lookback of None \<Rightarrow> DEFAULT_LOOKBACK | Some l \<Rightarrow> l));
         cns = (case candle_ns_arg of None \<Rightarrow> DEFAULT_DURATION | Some n \<Rightarrow> n)
     in if \<not> 1 < cap then Inl (Assertion ''capacity_ > 1'')
        else if \<not> 0 <s cns then Inl (Assertion ''candle_ns_ > 0'')
        else Inr \<lparr>capacity = cap, candle_ns = cns, count = 0, front = 0,
               starts = replicate cap 0, highs = replicate cap 0, lows = replicate cap 0\<rparr>)"

text \<open>
  \<^verbatim>\<open>candle_model::add_trade\<close>. The assertion follows the push; after a push it holds, so
  when it fails the object is as it was before the call.
\<close>

definition candle_add_trade :: "price_time \<Rightarrow> candle_model \<Rightarrow> error + candle_model" where
  "candle_add_trade trade m =
    (let p = as_interval (price trade);
         start = floor_time (time trade) (candle_ns m);
         m1 = (if count m = 0 \<or> starts m ! front m < start
               then (let f = (front m + capacity m - 1) mod capacity m
                     in m\<lparr>front := f,
                          count := min (count m + 1) (capacity m),
                          highs := (highs m)[f := p],
                          lows := (lows m)[f := p],
                          starts := (starts m)[f := start]\<rparr>)
               else m)
     in if start \<noteq> starts m1 ! front m1 then Inl (Assertion ''start == starts_[ front_ ]'')
        else Inr (m1\<lparr>highs := (highs m1)[front m1 := max (highs m1 ! front m1) p],
                     lows := (lows m1)[front m1 := min (lows m1 ! front m1) p]\<rparr>))"

text \<open>The \<^verbatim>\<open>for\<close> loop of \<^verbatim>\<open>eval_volatility\<close>, from index \<open>i\<close> with the two accumulators.\<close>

function vol_loop :: "candle_model \<Rightarrow> nat \<Rightarrow> price_interval \<Rightarrow> price_interval
    \<Rightarrow> error + (price_interval \<times> price_interval)" where
  "vol_loop m i numer denom =
    (if i + 1 < count m then
       (let cur = (front m + i) mod capacity m;
            prev = (cur + 1) mod capacity m;
            max_high = max (highs m ! cur) (highs m ! prev);
            min_low = min (lows m ! cur) (lows m ! prev);
            log_ratio = ln (max_high / min_low);
            prev_start = starts m ! prev;
            cur_end = add_time (starts m ! cur) (candle_ns m)
        in if \<not> 0 < min_low then Inl (Assertion ''min_low > 0'')
           else if \<not> min_low \<le> max_high then Inl (Assertion ''min_low <= max_high'')
           else if \<not> prev_start < cur_end then Inl (Assertion ''cur_end > prev_start'')
           else vol_loop m (i + 1) (numer + log_ratio * log_ratio)
                  (denom + as_interval (diff_times cur_end prev_start)))
     else Inr (numer, denom))"
  by pat_completeness auto
termination
  by (relation "measure (\<lambda>(m, i, numer, denom). count m - i)") auto

declare vol_loop.simps [simp del]

definition eval_volatility :: "candle_model \<Rightarrow> error + double option" where
  "eval_volatility m =
    (if \<not> count m \<le> capacity m then Inl (Assertion ''count_ <= capacity_'')
     else if count m < capacity m then Inr None
     else (case vol_loop m 0 0 0 of
             Inl e \<Rightarrow> Inl e
           | Inr (numer, denom) \<Rightarrow>
               (let denom' = denom * (ln 2 * 4);
                    ns_per_year = as_interval NS_PER_YEAR
                in Inr (Some (double_sqrt
                     (double_times (double_div numer denom') ns_per_year))))))"

definition candle_eval_at_time :: "timestamp \<Rightarrow> candle_model \<Rightarrow> error + double option" where
  "candle_eval_at_time t m = eval_volatility m"

text \<open>The candle model as a \<^verbatim>\<open>volatility_model\<close>; its evaluation leaves the object as it is.\<close>

definition candle_tracker :: "candle_model volatility_model" where
  "candle_tracker =
    \<lparr>tt_add_trade = candle_add_trade,
     tt_eval_at_time = (\<lambda>t m. case candle_eval_at_time t m of
                                 Inl e \<Rightarrow> Inl e | Inr v \<Rightarrow> Inr (v, m))\<rparr>"

section \<open>The standard price model (pc/ext/price_model.cpp)\<close>

text \<open>
  The field \<open>volatility_model\<close> is the state of the owned volatility model; its methods are
  the parameter \<open>vm\<close> of the operations.
\<close>

record 'v standard_price_model =
  volatility_model :: 'v
  min_interval :: price_interval
  init_volatility :: price_interval
  timeout_ns :: nsecs
  min_slot_ns :: nsecs
  last_trade :: "price_time option"
  range_since_eval :: "price_range option"

definition DEFAULT_TIMEOUT :: nsecs where "DEFAULT_TIMEOUT = NS_PER_SEC * 60"
definition DEFAULT_MIN_SLOT :: nsecs where "DEFAULT_MIN_SLOT = NS_PER_MS * 500"
definition DEFAULT_MIN_INTERVAL :: price_interval where "DEFAULT_MIN_INTERVAL = 1 / 100"
definition DEFAULT_VOLATILITY :: price_interval where "DEFAULT_VOLATILITY = 1"

text \<open>
  The constructor, given the volatility model object. (A null pointer is replaced by a
  default \<^verbatim>\<open>candle_model\<close>: see \<open>default_price_model\<close>.)
\<close>

definition standard_price_model_init :: "'v \<Rightarrow> price_interval option \<Rightarrow> nsecs option
    \<Rightarrow> nsecs option \<Rightarrow> price_interval option \<Rightarrow> error + 'v standard_price_model" where
  "standard_price_model_init vol_model min_conf_interval timeout min_slot init_vol =
    (let mi = (case min_conf_interval of None \<Rightarrow> DEFAULT_MIN_INTERVAL | Some x \<Rightarrow> x);
         iv = (case init_vol of None \<Rightarrow> DEFAULT_VOLATILITY | Some x \<Rightarrow> x);
         tmo = (case timeout of None \<Rightarrow> DEFAULT_TIMEOUT | Some x \<Rightarrow> x);
         ms = (case min_slot of None \<Rightarrow> DEFAULT_MIN_SLOT | Some x \<Rightarrow> x)
     in if \<not> 0 \<le> mi then Inl (Assertion ''min_interval_ >= 0'')
        else if \<not> 0 \<le> iv then Inl (Assertion ''init_volatility_ >= 0'')
        else if \<not> 0 \<le>s ms then Inl (Assertion ''min_slot_ns_ >= 0'')
        else if \<not> ms <s tmo then Inl (Assertion ''min_slot_ns_ < timeout_ns_'')
        else Inr \<lparr>volatility_model = vol_model, min_interval = mi, init_volatility = iv,
               timeout_ns = tmo, min_slot_ns = ms, last_trade = None,
               range_since_eval = None\<rparr>)"

definition default_price_model :: "error + candle_model standard_price_model" where
  "default_price_model =
    (case candle_model_init None None of
       Inl e \<Rightarrow> Inl e
     | Inr v \<Rightarrow> standard_price_model_init v None None None None)"

definition add_trade :: "'v volatility_model \<Rightarrow> price_time \<Rightarrow> 'v standard_price_model
    \<Rightarrow> error + 'v standard_price_model" where
  "add_trade vm trade s =
    (case tt_add_trade vm trade (volatility_model s) of
       Inl e \<Rightarrow> Inl e
     | Inr v \<Rightarrow>
         (let r = (case range_since_eval s of
                     None \<Rightarrow> price_range_open (price trade) | Some r \<Rightarrow> r)
          in Inr (s\<lparr>volatility_model := v,
                    range_since_eval := Some (add_price (price trade) r),
                    last_trade := Some trade\<rparr>)))"

definition eval_at_time :: "'v volatility_model \<Rightarrow> timestamp \<Rightarrow> 'v standard_price_model
    \<Rightarrow> error + (price_estimate option \<times> 'v standard_price_model)" where
  "eval_at_time vm now s =
    (case last_trade s of
       None \<Rightarrow> Inr (None, s)
     | Some lt \<Rightarrow>
         (let ns_since_trade = diff_times now (time lt)
          in if \<not> 0 \<le>s ns_since_trade then Inl (Assertion ''ns_since_trade >= 0'')
             else if timeout_ns s <s ns_since_trade then Inr (None, s)
             else (case tt_eval_at_time vm now (volatility_model s) of
                     Inl e \<Rightarrow> Inl e
                   | Inr (yearly_vol, v) \<Rightarrow>
                       (let years_since_trade =
                              as_interval (std_max ns_since_trade (min_slot_ns s))
                              / as_interval NS_PER_YEAR;
                            conf_interval =
                              double_times
                                (double_times
                                  (case yearly_vol of
                                     None \<Rightarrow> Finite (init_volatility s) | Some y \<Rightarrow> y)
                                  (sqrt years_since_trade))
                                (as_interval (price lt));
                            conf_interval' = double_max conf_interval (min_interval s)
                        in (case range_since_eval s of
                              Some r \<Rightarrow>
                                Inr (Some \<lparr>est_price = price lt,
                                           conf = double_max conf_interval' (interval r)\<rparr>,
                                     s\<lparr>volatility_model := v, range_since_eval := None\<rparr>)
                            | None \<Rightarrow>
                                Inr (Some \<lparr>est_price = price lt, conf = conf_interval'\<rparr>,
                                     s\<lparr>volatility_model := v\<rparr>))))))"

definition standard_tracker :: "'v volatility_model \<Rightarrow> 'v standard_price_model price_model" where
  "standard_tracker vm = \<lparr>tt_add_trade = add_trade vm, tt_eval_at_time = eval_at_time vm\<rparr>"

section \<open>The replay driver (pctest/test_price_model.hpp, pctest/test_price_model_unit.cpp)\<close>

text \<open>
  The fixture \<^verbatim>\<open>price_model_test\<close>. A column pointer is an optional list (\<open>None\<close> the null
  pointer); the model arguments carry the prefix \<open>test\<close>.
\<close>

record price_model_test =
  trade_times :: "timestamp list option"
  trade_prices :: "price_val list option"
  eval_times :: "timestamp list option"
  eval_prices :: "price_val list option"
  eval_intervals :: "price_interval list option"
  test_min_interval :: "price_interval option"
  test_init_volatility :: "price_interval option"
  test_timeout_ns :: "nsecs option"
  test_min_slot_ns :: "nsecs option"
  test_candle_ns :: "nsecs option"
  lookback_candles :: "64 word option"
  conf_tolerance :: "price_interval option"

text \<open>\<^verbatim>\<open>std::optional::value_or\<close>.\<close>

definition value_or :: "'a option \<Rightarrow> 'a \<Rightarrow> 'a" where
  "value_or opt d = (case opt of None \<Rightarrow> d | Some x \<Rightarrow> x)"

definition make_vol_model :: "price_model_test \<Rightarrow> error + candle_model" where
  "make_vol_model t = candle_model_init (lookback_candles t) (test_candle_ns t)"

definition make_price_model :: "price_model_test \<Rightarrow> error + candle_model standard_price_model" where
  "make_price_model t =
    (case make_vol_model t of
       Inl e \<Rightarrow> Inl e
     | Inr v \<Rightarrow> standard_price_model_init v (test_min_interval t) (test_timeout_ns t)
                 (test_min_slot_ns t) (test_init_volatility t))"

text \<open>The \<^verbatim>\<open>stub_volatility_model\<close> of the unit test: its state is the fixed answer \<^verbatim>\<open>vol_\<close>.\<close>

definition stub_volatility_model :: "double option volatility_model" where
  "stub_volatility_model =
    \<lparr>tt_add_trade = (\<lambda>tr v. Inr v), tt_eval_at_time = (\<lambda>now v. Inr (v, v))\<rparr>"

definition validate_args :: "price_model_test \<Rightarrow> error + unit" where
  "validate_args t =
    (if \<not> (trade_times t \<noteq> None \<and> trade_prices t \<noteq> None)
       then Inl (Usage ''trade_times_ && trade_prices_'')
     else if \<not> (eval_times t \<noteq> None \<and> eval_prices t \<noteq> None \<and> eval_intervals t \<noteq> None)
       then Inl (Usage ''eval_times_ && eval_prices_ && eval_intervals_'')
     else if length (the (trade_times t)) \<noteq> length (the (trade_prices t))
       then Inl (Usage ''trade_times_->size() == trade_prices_->size()'')
     else if length (the (eval_times t)) \<noteq> length (the (eval_prices t))
       then Inl (Usage ''eval_times_->size() == eval_prices_->size()'')
     else if length (the (eval_times t)) \<noteq> length (the (eval_intervals t))
       then Inl (Usage ''eval_times_->size() == eval_intervals_->size()'')
     else if \<not> 0 \<le> value_or (test_init_volatility t) 0
       then Inl (Usage ''init_volatility_.value_or( 0 ) >= 0'')
     else if \<not> 0 \<le> value_or (test_min_interval t) 0
       then Inl (Usage ''min_interval_.value_or( 0 ) >= 0'')
     else if \<not> 0 \<le>s value_or (test_min_slot_ns t) 0
       then Inl (Usage ''min_slot_ns_.value_or( 0 ) >= 0'')
     else if \<not> 0 <s value_or (test_timeout_ns t) 1
       then Inl (Usage ''timeout_ns_.value_or( 1 ) > 0'')
     else if \<not> 0 <s value_or (test_candle_ns t) 1
       then Inl (Usage ''candle_ns_.value_or( 1 ) > 0'')
     else if \<not> 0 < value_or (lookback_candles t) 1
       then Inl (Usage ''lookback_candles_.value_or( 1 ) > 0'')
     else if \<not> 0 \<le> value_or (conf_tolerance t) 0
       then Inl (Usage ''conf_tolerance_.value_or( 0 ) >= 0'')
     else Inr ())"

text \<open>A \<^verbatim>\<open>for\<close> loop of assertions over the indices, leaving at the first that fails.\<close>

fun assert_each :: "(nat \<Rightarrow> error option) \<Rightarrow> nat list \<Rightarrow> error + unit" where
  "assert_each chk [] = Inr ()"
| "assert_each chk (i # is) = (case chk i of Some e \<Rightarrow> Inl e | None \<Rightarrow> assert_each chk is)"

text \<open>\<^verbatim>\<open>eval_time\<close> at the head of the loop body; \<open>- 1\<close> is \<^verbatim>\<open>numeric_limits< timestamp >::max()\<close>.\<close>

definition loop_eval_time :: "price_model_test \<Rightarrow> nat \<Rightarrow> timestamp" where
  "loop_eval_time t eval_idx =
    (if eval_idx < length (the (eval_prices t)) then the (eval_times t) ! eval_idx else - 1)"

text \<open>
  The \<^verbatim>\<open>while ( true )\<close> loop of \<^verbatim>\<open>run\<close>, over a model \<open>pm\<close> with state \<open>'m\<close>; it returns the
  two indices and the model at the \<^verbatim>\<open>break\<close>.
\<close>

function run_loop :: "'m price_model \<Rightarrow> price_model_test \<Rightarrow> price_interval \<Rightarrow> nat \<Rightarrow> nat \<Rightarrow> 'm
    \<Rightarrow> error + (nat \<times> nat \<times> 'm)" where
  "run_loop pm t conf_tol trade_idx eval_idx model =
    (if trade_idx < length (the (trade_prices t))
        \<and> the (trade_times t) ! trade_idx < loop_eval_time t eval_idx
     then (case tt_add_trade pm \<lparr>price = the (trade_prices t) ! trade_idx,
                                 time = the (trade_times t) ! trade_idx\<rparr> model of
             Inl e \<Rightarrow> Inl e
           | Inr model' \<Rightarrow> run_loop pm t conf_tol (trade_idx + 1) eval_idx model')
     else if eval_idx < length (the (eval_prices t))
     then (case tt_eval_at_time pm (loop_eval_time t eval_idx) model of
             Inl e \<Rightarrow> Inl e
           | Inr (actual, model') \<Rightarrow>
               (case actual of
                  Some a \<Rightarrow>
                    if est_price a \<noteq> the (eval_prices t) ! eval_idx
                      then Inl (Assertion ''actual->price_ == expected_price'')
                    else if \<not> double_ge (conf a) (the (eval_intervals t) ! eval_idx * (1 - conf_tol))
                      then Inl (Assertion ''actual->conf_ >= expected_conf * ( 1 - conf_tol )'')
                    else if \<not> double_le (conf a) (the (eval_intervals t) ! eval_idx * (1 + conf_tol))
                      then Inl (Assertion ''actual->conf_ <= expected_conf * ( 1 + conf_tol )'')
                    else run_loop pm t conf_tol trade_idx (eval_idx + 1) model'
                | None \<Rightarrow>
                    if the (eval_prices t) ! eval_idx \<noteq> 0
                      then Inl (Assertion ''expected_price == 0'')
                    else if the (eval_intervals t) ! eval_idx \<noteq> 0
                      then Inl (Assertion ''expected_conf == 0'')
                    else run_loop pm t conf_tol trade_idx (eval_idx + 1) model'))
     else Inr (trade_idx, eval_idx, model))"
  by pat_completeness auto
termination
  by (relation "measure (\<lambda>(pm, t, conf_tol, trade_idx, eval_idx, model).
        (length (the (trade_prices t)) - trade_idx)
        + (length (the (eval_prices t)) - eval_idx))") auto

declare run_loop.simps [simp del]

text \<open>
  \<^verbatim>\<open>price_model_test::run\<close>, over the model \<open>pm\<close> that the virtual \<^verbatim>\<open>make_price_model\<close>
  (here \<open>make_model\<close>) creates. The source returns nothing; the model at the end is returned
  here so that it can be observed.
\<close>

definition run :: "'m price_model \<Rightarrow> (price_model_test \<Rightarrow> error + 'm) \<Rightarrow> price_model_test
    \<Rightarrow> error + 'm" where
  "run pm make_model t =
    (case validate_args t of
       Inl e \<Rightarrow> Inl e
     | Inr _ \<Rightarrow>
         (case assert_each
                 (\<lambda>i. if \<not> the (trade_times t) ! (i - 1) \<le> the (trade_times t) ! i
                      then Some (Assertion ''trade_times[ i - 1 ] <= trade_times[ i ]'')
                      else None)
                 [1..<length (the (trade_prices t))] of
            Inl e \<Rightarrow> Inl e
          | Inr _ \<Rightarrow>
              (case assert_each
                      (\<lambda>i. if \<not> the (eval_times t) ! (i - 1) \<le> the (eval_times t) ! i
                           then Some (Assertion ''eval_times[ i - 1 ] <= eval_times[ i ]'')
                           else if \<not> 0 \<le> the (eval_intervals t) ! i
                           then Some (Assertion ''eval_confs[ i ] >= 0'')
                           else None)
                      [1..<length (the (eval_prices t))] of
                 Inl e \<Rightarrow> Inl e
               | Inr _ \<Rightarrow>
                   (case make_model t of
                      Inl e \<Rightarrow> Inl e
                    | Inr model \<Rightarrow>
                        (case run_loop pm t (value_or (conf_tolerance t) (1 / 100000)) 0 0 model of
                           Inl e \<Rightarrow> Inl e
                         | Inr (trade_idx, eval_idx, model') \<Rightarrow>
                             if trade_idx \<noteq> length (the (trade_prices t))
                               then Inl (Assertion ''trade_idx == trade_count'')
                             else if eval_idx \<noteq> length (the (eval_prices t))
                               then Inl (Assertion ''eval_idx == eval_count'')
                             else Inr model')))))"

section \<open>Observing the calls a model receives\<close>

text \<open>
  A model that behaves as \<open>pm\<close> and records, newest first, the calls that returned. The
  record at the moment of an evaluation is the sequence of calls that produced the state
  the evaluation observes.
\<close>

datatype event = TradeEvent price_time | EvalEvent timestamp

definition traced :: "'m price_model \<Rightarrow> ('m \<times> event list) price_model" where
  "traced pm =
    \<lparr>tt_add_trade = (\<lambda>tr (m, hist). case tt_add_trade pm tr m of
                         Inl e \<Rightarrow> Inl e | Inr m' \<Rightarrow> Inr (m', TradeEvent tr # hist)),
     tt_eval_at_time = (\<lambda>now (m, hist). case tt_eval_at_time pm now m of
                         Inl e \<Rightarrow> Inl e
                       | Inr (r, m') \<Rightarrow> Inr (r, (m', EvalEvent now # hist)))\<rparr>"

fun trade_events :: "event list \<Rightarrow> price_time list" where
  "trade_events [] = []"
| "trade_events (TradeEvent tr # evs) = tr # trade_events evs"
| "trade_events (EvalEvent now # evs) = trade_events evs"

fun eval_events :: "event list \<Rightarrow> timestamp list" where
  "eval_events [] = []"
| "eval_events (TradeEvent tr # evs) = eval_events evs"
| "eval_events (EvalEvent now # evs) = now # eval_events evs"

text \<open>
  In a record, newest first, of a run over the trades \<open>trades\<close>: the trades fed before each
  evaluation are exactly the trades whose times are strictly less than the evaluation's
  time, in their order.
\<close>

fun evals_see_earlier_trades :: "price_time list \<Rightarrow> event list \<Rightarrow> bool" where
  "evals_see_earlier_trades trades [] = True"
| "evals_see_earlier_trades trades (TradeEvent tr # older) =
    evals_see_earlier_trades trades older"
| "evals_see_earlier_trades trades (EvalEvent now # older) =
    (rev (trade_events older) = filter (\<lambda>tr. time tr < now) trades
     \<and> evals_see_earlier_trades trades older)"

text \<open>The \<open>i\<close>-th trade of the fixture and all its trades, and the invariant of the loop over
  a recorded model: what has been recorded is the first \<open>ti\<close> trades and the first \<open>ei\<close>
  evaluations, every recorded trade is strictly earlier than the next evaluation time,
  and every recorded evaluation came after exactly the strictly earlier trades.\<close>

definition trade_at :: "price_model_test \<Rightarrow> nat \<Rightarrow> price_time" where
  "trade_at t i = \<lparr>price = the (trade_prices t) ! i, time = the (trade_times t) ! i\<rparr>"

definition all_trades :: "price_model_test \<Rightarrow> price_time list" where
  "all_trades t = map (trade_at t) [0..<length (the (trade_prices t))]"

definition loop_inv :: "price_model_test \<Rightarrow> nat \<Rightarrow> nat \<Rightarrow> event list \<Rightarrow> bool" where
  "loop_inv t ti ei hist \<longleftrightarrow>
    ti \<le> length (the (trade_prices t)) \<and> ei \<le> length (the (eval_prices t))
    \<and> evals_see_earlier_trades (all_trades t) hist
    \<and> list_all (\<lambda>tr. time tr < loop_eval_time t ei) (trade_events hist)
    \<and> trade_events hist = rev (map (trade_at t) [0..<ti])
    \<and> eval_events hist = rev (map (\<lambda>i. the (eval_times t) ! i) [0..<ei])"

text \<open>
  A fixture in which the second trade and the first evaluation share the timestamp 10,
  with a second evaluation between the second and the third trade, and the unit test's
  way of making the model: the standard price model over the stub.
\<close>

definition tie_fixture :: price_model_test where
  "tie_fixture =
    \<lparr>trade_times = Some [5, 10, 12], trade_prices = Some [100, 110, 120],
     eval_times = Some [10, 11], eval_prices = Some [100, 110],
     eval_intervals = Some [1 / 100, 1 / 100],
     test_min_interval = None, test_init_volatility = Some 0, test_timeout_ns = None,
     test_min_slot_ns = None, test_candle_ns = None, lookback_candles = None,
     conf_tolerance = None\<rparr>"

definition make_stub_model :: "price_model_test
    \<Rightarrow> error + (double option standard_price_model \<times> event list)" where
  "make_stub_model t =
    (case standard_price_model_init None (test_min_interval t) (test_timeout_ns t)
            (test_min_slot_ns t) (test_init_volatility t) of
       Inl e \<Rightarrow> Inl e
     | Inr s \<Rightarrow> Inr (s, []))"

section \<open>Views of the candle ring\<close>

text \<open>
  The candle in the slot \<open>i\<close> places after \<open>front\<close> (modulo \<open>capacity\<close>), and the stored
  candles from the front on. A push moves \<open>front\<close> one slot back, so slot \<open>front + i\<close>
  holds the \<open>i\<close>-th newest candle (\<open>pushed_candles\<close> and \<open>widened_candles\<close> below).
\<close>

record candle =
  c_start :: timestamp
  c_high :: price_interval
  c_low :: price_interval

definition nth_newest :: "candle_model \<Rightarrow> nat \<Rightarrow> candle" where
  "nth_newest m i =
    (let k = (front m + i) mod capacity m
     in \<lparr>c_start = starts m ! k, c_high = highs m ! k, c_low = lows m ! k\<rparr>)"

definition candles :: "candle_model \<Rightarrow> candle list" where
  "candles m = map (nth_newest m) [0..<count m]"

text \<open>What the constructor establishes about the ring and every operation keeps.\<close>

definition ring_wf :: "candle_model \<Rightarrow> bool" where
  "ring_wf m \<longleftrightarrow>
    1 < capacity m \<and> 0 <s candle_ns m \<and> count m \<le> capacity m \<and> front m < capacity m
    \<and> length (starts m) = capacity m \<and> length (highs m) = capacity m
    \<and> length (lows m) = capacity m"

text \<open>A sequence of \<^verbatim>\<open>add_trade\<close> calls on one candle model, stopping at the first throw.\<close>

fun feed :: "price_time list \<Rightarrow> candle_model \<Rightarrow> error + candle_model" where
  "feed [] m = Inr m"
| "feed (t # ts) m =
    (case candle_add_trade t m of Inl e \<Rightarrow> Inl e | Inr m' \<Rightarrow> feed ts m')"

text \<open>
  The two states \<^verbatim>\<open>candle_model::add_trade\<close> can leave behind: a new candle pushed at the
  front, or the front candle widened.
\<close>

definition pushed :: "price_time \<Rightarrow> candle_model \<Rightarrow> candle_model" where
  "pushed t m =
    (let p = as_interval (price t);
         s = floor_time (time t) (candle_ns m);
         f = (front m + capacity m - 1) mod capacity m
     in m\<lparr>front := f, count := min (count m + 1) (capacity m),
          highs := (highs m)[f := p], lows := (lows m)[f := p],
          starts := (starts m)[f := s]\<rparr>)"

definition widened :: "price_time \<Rightarrow> candle_model \<Rightarrow> candle_model" where
  "widened t m =
    m\<lparr>highs := (highs m)[front m := max (highs m ! front m) (as_interval (price t))],
      lows := (lows m)[front m := min (lows m ! front m) (as_interval (price t))]\<rparr>"

text \<open>
  The loop body of \<^verbatim>\<open>eval_volatility\<close> on a pair \<open>(cur, prev)\<close> of candles: its three
  assertions, and the term it adds to \<open>denom\<close>, with the wrap-around of \<^verbatim>\<open>add_time\<close> and
  the signed reading of \<^verbatim>\<open>diff_times\<close>.
\<close>

definition loop_checks :: "nsecs \<Rightarrow> candle \<Rightarrow> candle \<Rightarrow> bool" where
  "loop_checks ns cur prev \<longleftrightarrow>
    0 < min (c_low cur) (c_low prev)
    \<and> min (c_low cur) (c_low prev) \<le> max (c_high cur) (c_high prev)
    \<and> c_start prev < add_time (c_start cur) ns"

definition loop_span :: "nsecs \<Rightarrow> candle \<Rightarrow> candle \<Rightarrow> price_interval" where
  "loop_span ns cur prev = as_interval (diff_times (add_time (c_start cur) ns) (c_start prev))"

text \<open>
  The volatility as the specification words it, over the stored candles from the newest
  on, in exact arithmetic: for every adjacent pair \<open>(cur, prev)\<close>, \<open>cur\<close> the \<open>i\<close>-th newest
  and \<open>prev\<close> the \<open>(i + 1)\<close>-th newest, the squared log ratio of the merged high and low,
  and the number of nanoseconds \<open>cur.start + candle_duration_ns - prev.start\<close>; \<open>pair_ok\<close>
  is what the specification requires of a pair, with \<open>cur_end = cur.start +
  candle_duration_ns\<close>.
\<close>

definition pair_log_ratio :: "candle \<Rightarrow> candle \<Rightarrow> price_interval" where
  "pair_log_ratio cur prev =
    ln (max (c_high cur) (c_high prev) / min (c_low cur) (c_low prev))"

definition pair_span :: "nsecs \<Rightarrow> candle \<Rightarrow> candle \<Rightarrow> price_interval" where
  "pair_span ns cur prev = real_of_int (uint (c_start cur) + sint ns - uint (c_start prev))"

definition pair_ok :: "nsecs \<Rightarrow> candle \<Rightarrow> candle \<Rightarrow> bool" where
  "pair_ok ns cur prev \<longleftrightarrow>
    0 < min (c_low cur) (c_low prev)
    \<and> min (c_low cur) (c_low prev) \<le> max (c_high cur) (c_high prev)
    \<and> uint (c_start prev) < uint (c_start cur) + sint ns"

definition pairs_ok :: "nsecs \<Rightarrow> candle list \<Rightarrow> bool" where
  "pairs_ok ns cs = list_all (\<lambda>i. pair_ok ns (cs ! i) (cs ! (i + 1))) [0..<length cs - 1]"

definition spec_numer :: "candle list \<Rightarrow> price_interval" where
  "spec_numer cs = (\<Sum>i\<leftarrow>[0..<length cs - 1]. (pair_log_ratio (cs ! i) (cs ! (i + 1)))\<^sup>2)"

definition spec_denom :: "nsecs \<Rightarrow> candle list \<Rightarrow> price_interval" where
  "spec_denom ns cs =
    (\<Sum>i\<leftarrow>[0..<length cs - 1]. pair_span ns (cs ! i) (cs ! (i + 1))) * (4 * ln 2)"

definition spec_volatility :: "nsecs \<Rightarrow> candle list \<Rightarrow> price_interval" where
  "spec_volatility ns cs = sqrt (spec_numer cs / spec_denom ns cs * as_interval NS_PER_YEAR)"

text \<open>
  Every stored candle ends below \<open>2 ^ 63\<close> nanoseconds, so that \<^verbatim>\<open>add_time\<close> does not wrap
  and \<^verbatim>\<open>diff_times\<close> keeps the value of the difference.
\<close>

definition ends_in_range :: "nsecs \<Rightarrow> candle list \<Rightarrow> bool" where
  "ends_in_range ns cs = list_all (\<lambda>c. uint (c_start c) + sint ns < 2 ^ 63) cs"

text \<open>The invariant of the ring: well-formed, starts strictly decreasing from the front, and
  \<open>low \<le> high\<close> in every stored candle.\<close>

definition ring_inv :: "candle_model \<Rightarrow> bool" where
  "ring_inv m \<longleftrightarrow> ring_wf m
     \<and> sorted_wrt (\<lambda>a b. c_start b < c_start a) (candles m)
     \<and> (\<forall>c\<in>set (candles m). c_low c \<le> c_high c)"

section \<open>Views of the price model\<close>

text \<open>What the constructor's assertions establish about the configuration fields, which are
  \<^verbatim>\<open>const\<close>.\<close>

definition config_ok :: "'v standard_price_model \<Rightarrow> bool" where
  "config_ok s \<longleftrightarrow>
    0 \<le> min_interval s \<and> 0 \<le> init_volatility s \<and> 0 \<le>s min_slot_ns s
    \<and> min_slot_ns s <s timeout_ns s"

text \<open>
  The confidence without the range term as the code computes it,
  \<open>max (vol * sqrt years * price) min_interval\<close>, from the volatility model's answer, the
  nanoseconds since the last trade and its price; and as the specification words it, with
  the absolute value of the price.
\<close>

definition base_conf :: "'v standard_price_model \<Rightarrow> double option \<Rightarrow> nsecs
    \<Rightarrow> price_val \<Rightarrow> double" where
  "base_conf s yearly_vol ns_since_trade p =
    double_max
      (double_times
        (double_times (case yearly_vol of None \<Rightarrow> Finite (init_volatility s) | Some y \<Rightarrow> y)
          (sqrt (as_interval (std_max ns_since_trade (min_slot_ns s))
                 / as_interval NS_PER_YEAR)))
        (as_interval p))
      (min_interval s)"

definition spec_conf :: "'v standard_price_model \<Rightarrow> double option \<Rightarrow> nsecs
    \<Rightarrow> price_val \<Rightarrow> double" where
  "spec_conf s yearly_vol ns_since_trade p =
    double_max
      (double_times
        (double_times (case yearly_vol of None \<Rightarrow> Finite (init_volatility s) | Some y \<Rightarrow> y)
          (sqrt (as_interval (std_max ns_since_trade (min_slot_ns s))
                 / as_interval NS_PER_YEAR)))
        \<bar>as_interval p\<bar>)
      (min_interval s)"

section \<open>Scenarios\<close>

text \<open>
  States reached through the constructors and \<^verbatim>\<open>add_trade\<close>, used as concrete inputs: the
  default model after one trade at time 0; the default model after trades at prices 100
  and 110, one second apart; a model with lookback 1 and candles of 60 ns after two
  trades at price 0 in two buckets; and a candle model with lookback 1 and the default
  candles after trades at times 0 and \<open>2 ^ 63 - 1\<close>.
\<close>

definition single_trade_model :: "price_val \<Rightarrow> candle_model standard_price_model" where
  "single_trade_model p =
    projr (add_trade candle_tracker \<lparr>price = p, time = 0\<rparr> (projr default_price_model))"

definition two_trade_model :: "candle_model standard_price_model" where
  "two_trade_model =
    projr (add_trade candle_tracker \<lparr>price = 110, time = 1000000000\<rparr>
      (single_trade_model 100))"

definition zero_price_model :: "candle_model standard_price_model" where
  "zero_price_model =
    projr (add_trade candle_tracker \<lparr>price = 0, time = 60\<rparr>
      (projr (add_trade candle_tracker \<lparr>price = 0, time = 0\<rparr>
        (projr (standard_price_model_init (projr (candle_model_init (Some 1) (Some 60)))
          None None None None)))))"

definition far_candle_model :: candle_model where
  "far_candle_model =
    projr (feed [\<lparr>price = 100, time = 0\<rparr>, \<lparr>price = 110, time = 9223372036854775807\<rparr>]
      (projr (candle_model_init (Some 1) None)))"


section \<open>Properties of the time primitives\<close>

lemma sint_nonneg_uint:
  fixes w :: "64 word"
  assumes "uint w < 2 ^ 63"
  shows "sint w = uint w"
proof -
  have "- (2 ^ 63) \<le> uint w" by (rule order_trans [of _ 0]) simp_all
  then have "signed_take_bit 63 (uint w) = uint w"
    using assms by (intro signed_take_bit_int_eq_self) simp_all
  then show ?thesis by (simp add: sint_uint)
qed

lemma div_mult_le_int:
  fixes a b :: int
  assumes "0 < b"
  shows "a div b * b \<le> a"
proof -
  have "a div b * b + a mod b = a" by simp
  moreover have "0 \<le> a mod b" using assms by simp
  ultimately show ?thesis by linarith
qed

lemma floor_time_uint:
  assumes ts: "uint ts < 2 ^ 63" and iv: "0 <s ivl"
  shows "uint (floor_time ts ivl) = uint ts div sint ivl * sint ivl"
proof -
  let ?a = "uint ts" and ?b = "sint ivl"
  have b: "0 < ?b" using iv by (simp add: word_sless_alt)
  have a: "0 \<le> ?a" by simp
  have sd: "sint ts sdiv ?b = ?a div ?b"
    using a b by (simp add: sint_nonneg_uint [OF ts] signed_divide_int_def sgn_if)
  have le: "?a div ?b * ?b \<le> ?a"
    using b by (rule div_mult_le_int)
  have nn: "0 \<le> ?a div ?b * ?b"
    using a b by (simp add: pos_imp_zdiv_nonneg_iff)
  have fl: "floor_time ts ivl = word_of_int (?a div ?b * ?b)"
    by (simp add: floor_time_def nsecs_div_def as_ns_def sd)
  have "(2::int) ^ 63 < 2 ^ 64" by simp
  then have "?a div ?b * ?b < 2 ^ 64"
    using le ts by linarith
  then have "(?a div ?b * ?b) mod 2 ^ 64 = ?a div ?b * ?b"
    using nn by (intro mod_pos_pos_trivial) simp_all
  moreover have "uint (word_of_int (?a div ?b * ?b) :: 64 word) = (?a div ?b * ?b) mod 2 ^ 64"
    by (simp only: uint_word_of_int) simp
  ultimately show ?thesis
    by (simp only: fl)
qed

text \<open>
  Claim C7, as amended. For every timestamp \<open>ts\<close> below \<open>2 ^ 63\<close> (so that the cast
  \<^verbatim>\<open>as_ns\<close> keeps its value) and every interval \<open>> 0\<close>, \<open>floor_time ts ivl\<close> is a
  multiple of the interval, is at most \<open>ts\<close>, and every multiple of the interval that is
  at most \<open>ts\<close> is at most \<open>floor_time ts ivl\<close>.
\<close>

theorem floor_time_greatest_multiple:
  assumes "uint ts < 2 ^ 63" and "0 <s ivl"
  shows "sint ivl dvd uint (floor_time ts ivl)
    \<and> uint (floor_time ts ivl) \<le> uint ts
    \<and> (\<forall>m. sint ivl dvd m \<and> m \<le> uint ts \<longrightarrow> m \<le> uint (floor_time ts ivl))"
proof -
  let ?a = "uint ts" and ?b = "sint ivl"
  have b: "0 < ?b" using assms(2) by (simp add: word_sless_alt)
  have eq: "uint (floor_time ts ivl) = ?a div ?b * ?b"
    by (rule floor_time_uint [OF assms])
  have le: "?a div ?b * ?b \<le> ?a"
    using b by (rule div_mult_le_int)
  have gr: "m \<le> ?a div ?b * ?b" if "?b dvd m" and "m \<le> ?a" for m
  proof -
    from that(1) obtain k where m: "m = ?b * k" by (auto simp: dvd_def)
    have "m div ?b \<le> ?a div ?b" using that(2) b by (simp add: zdiv_mono1)
    then have "k \<le> ?a div ?b" using m b by simp
    then have "k * ?b \<le> ?a div ?b * ?b" using b by (simp add: mult_right_mono)
    then show ?thesis using m by (simp add: mult.commute)
  qed
  show ?thesis using eq le gr by simp
qed

text \<open>
  Witness for C7: the timestamp 125 and the interval 60.
\<close>

theorem floor_time_greatest_multiple_witness:
  "uint (125 :: timestamp) < 2 ^ 63 \<and> 0 <s (60 :: nsecs)
    \<and> sint (60 :: nsecs) dvd uint (floor_time 125 60)
    \<and> uint (floor_time 125 60) \<le> uint (125 :: timestamp)
    \<and> floor_time 125 60 = 120"
  using floor_time_greatest_multiple [of 125 60]
  by (simp add: floor_time_def nsecs_div_def as_ns_def signed_divide_int_def word_sless_alt)

text \<open>
  Counterexample for C7 as stated: at the timestamp \<open>2 ^ 63\<close>, whose cast to \<^verbatim>\<open>nsecs\<close> is
  negative, and the interval 10, the division truncates towards zero and the result is
  above the timestamp.
\<close>

theorem floor_time_above_counterexample:
  "0 <s (10 :: nsecs)
    \<and> \<not> uint (floor_time 9223372036854775808 10) \<le> uint (9223372036854775808 :: timestamp)"
  by (simp add: floor_time_def nsecs_div_def as_ns_def signed_divide_int_def word_sless_alt)


section \<open>Properties of the candle ring\<close>

lemma ring_back_step:
  fixes f c i :: nat
  assumes "f < c" "0 < i"
  shows "((f + c - 1) mod c + i) mod c = (f + (i - 1)) mod c"
proof -
  have "((f + c - 1) mod c + i) mod c = (f + c - 1 + i) mod c"
    by (simp add: mod_add_left_eq)
  also have "f + c - 1 + i = (f + (i - 1)) + c" using assms by simp
  also have "\<dots> mod c = (f + (i - 1)) mod c" by simp
  finally show ?thesis .
qed

lemma ring_slot_distinct:
  fixes g c i :: nat
  assumes "g < c" "0 < i" "i < c"
  shows "(g + i) mod c \<noteq> g"
proof (cases "g + i < c")
  case True
  then show ?thesis using assms by simp
next
  case False
  then have "(g + i) mod c = g + i - c"
    using assms by (simp add: mod_if)
  then show ?thesis using assms False by simp
qed

lemma length_candles [simp]: "length (candles m) = count m"
  by (simp add: candles_def)

lemma nth_candles: "i < count m \<Longrightarrow> candles m ! i = nth_newest m i"
  by (simp add: candles_def)

lemma pushed_fields:
  "front (pushed t m) = (front m + capacity m - 1) mod capacity m"
  "count (pushed t m) = min (count m + 1) (capacity m)"
  "capacity (pushed t m) = capacity m"
  "candle_ns (pushed t m) = candle_ns m"
  "starts (pushed t m) = (starts m)[(front m + capacity m - 1) mod capacity m
      := floor_time (time t) (candle_ns m)]"
  "highs (pushed t m) = (highs m)[(front m + capacity m - 1) mod capacity m
      := as_interval (price t)]"
  "lows (pushed t m) = (lows m)[(front m + capacity m - 1) mod capacity m
      := as_interval (price t)]"
  by (simp_all add: pushed_def Let_def)

lemma candle_add_trade_new:
  assumes wf: "ring_wf m"
    and new: "count m = 0 \<or> starts m ! front m < floor_time (time t) (candle_ns m)"
  shows "candle_add_trade t m = Inr (pushed t m)"
proof -
  have "(front m + capacity m - 1) mod capacity m < length (starts m)"
    "(front m + capacity m - 1) mod capacity m < length (highs m)"
    "(front m + capacity m - 1) mod capacity m < length (lows m)"
    using wf by (simp_all add: ring_wf_def)
  then show ?thesis
    using new by (simp add: candle_add_trade_def pushed_def Let_def)
qed

lemma pushed_wf:
  assumes wf: "ring_wf m"
  shows "ring_wf (pushed t m)"
  using wf by (simp add: ring_wf_def pushed_fields)

lemma pushed_candles:
  assumes wf: "ring_wf m"
  shows "candles (pushed t m) =
    \<lparr>c_start = floor_time (time t) (candle_ns m), c_high = as_interval (price t),
     c_low = as_interval (price t)\<rparr> # take (capacity m - 1) (candles m)"
    (is "?lhs = ?c # ?rest")
proof (rule nth_equalityI)
  show "length ?lhs = length (?c # ?rest)"
    using wf by (auto simp add: pushed_fields ring_wf_def min_def)
next
  fix i assume "i < length ?lhs"
  then have i: "i < min (count m + 1) (capacity m)"
    by (simp add: pushed_fields)
  define f where "f = (front m + capacity m - 1) mod capacity m"
  note flds = pushed_fields [of t m, folded f_def]
  have cap: "0 < capacity m" and fr: "front m < capacity m"
    and len: "length (starts m) = capacity m" "length (highs m) = capacity m"
      "length (lows m) = capacity m"
    using wf by (simp_all add: ring_wf_def)
  have f: "f < capacity m" using cap by (simp add: f_def)
  show "?lhs ! i = (?c # ?rest) ! i"
  proof (cases i)
    case 0
    have "?lhs ! 0 = nth_newest (pushed t m) 0"
      by (rule nth_candles) (simp add: flds cap)
    also have "\<dots> = ?c"
      using f len by (simp add: nth_newest_def flds Let_def)
    finally show ?thesis using 0 by simp
  next
    case (Suc j)
    have j: "j < count m" "j < capacity m - 1" using i Suc by auto
    have "(f + Suc j) mod capacity m = (front m + (Suc j - 1)) mod capacity m"
      unfolding f_def by (rule ring_back_step [OF fr]) simp
    then have k: "Suc (f + j) mod capacity m = (front m + j) mod capacity m"
      by simp
    have "(f + Suc j) mod capacity m \<noteq> f"
      using j by (intro ring_slot_distinct [OF f]) simp_all
    then have ne: "(front m + j) mod capacity m \<noteq> f"
      using k by simp
    have "?lhs ! Suc j = nth_newest (pushed t m) (Suc j)"
      using i Suc by (intro nth_candles) (simp add: flds)
    also have "\<dots> = nth_newest m j"
      using ne by (simp add: nth_newest_def flds k Let_def)
    also have "\<dots> = candles m ! j" using j by (simp add: nth_candles)
    finally show ?thesis using Suc j by simp
  qed
qed


lemma widened_fields:
  "front (widened t m) = front m"
  "count (widened t m) = count m"
  "capacity (widened t m) = capacity m"
  "candle_ns (widened t m) = candle_ns m"
  "starts (widened t m) = starts m"
  by (simp_all add: widened_def)

lemma candle_add_trade_same:
  assumes "0 < count m" and "starts m ! front m = floor_time (time t) (candle_ns m)"
  shows "candle_add_trade t m = Inr (widened t m)"
  using assms by (simp add: candle_add_trade_def widened_def Let_def)

lemma candle_add_trade_old:
  assumes "0 < count m" and "floor_time (time t) (candle_ns m) < starts m ! front m"
  shows "candle_add_trade t m = Inl (Assertion ''start == starts_[ front_ ]'')"
  using assms by (auto simp add: candle_add_trade_def Let_def)

lemma candle_add_trade_cases:
  assumes wf: "ring_wf m" and ok: "candle_add_trade t m = Inr m'"
  shows "(count m = 0 \<or> starts m ! front m < floor_time (time t) (candle_ns m)) \<and> m' = pushed t m
    \<or> 0 < count m \<and> starts m ! front m = floor_time (time t) (candle_ns m) \<and> m' = widened t m"
proof (cases "count m = 0 \<or> starts m ! front m < floor_time (time t) (candle_ns m)")
  case True
  then show ?thesis using candle_add_trade_new [OF wf True] ok by simp
next
  case False
  then have c: "0 < count m" and nl: "\<not> starts m ! front m < floor_time (time t) (candle_ns m)"
    by simp_all
  show ?thesis
  proof (cases "starts m ! front m = floor_time (time t) (candle_ns m)")
    case True
    then show ?thesis using candle_add_trade_same [OF c True] ok c by simp
  next
    case False
    with nl have "floor_time (time t) (candle_ns m) < starts m ! front m" by simp
    from candle_add_trade_old [OF c this] ok show ?thesis by simp
  qed
qed

lemma widened_wf: "ring_wf m \<Longrightarrow> ring_wf (widened t m)"
  by (simp add: ring_wf_def widened_def)

lemma hd_candles:
  assumes "ring_wf m" "0 < count m"
  shows "hd (candles m) = \<lparr>c_start = starts m ! front m, c_high = highs m ! front m,
    c_low = lows m ! front m\<rparr>"
proof -
  have "candles m \<noteq> []" using assms(2) by (simp add: candles_def)
  then have "hd (candles m) = candles m ! 0"
    by (rule hd_conv_nth)
  also have "\<dots> = nth_newest m 0" using assms by (simp add: nth_candles)
  finally show ?thesis using assms by (simp add: nth_newest_def ring_wf_def Let_def)
qed

lemma widened_candles:
  assumes wf: "ring_wf m" and c: "0 < count m"
  shows "candles (widened t m) =
    \<lparr>c_start = c_start (hd (candles m)),
     c_high = max (c_high (hd (candles m))) (as_interval (price t)),
     c_low = min (c_low (hd (candles m))) (as_interval (price t))\<rparr> # tl (candles m)"
    (is "?lhs = ?c # ?rest")
proof (rule nth_equalityI)
  show "length ?lhs = length (?c # ?rest)"
    using c by (simp add: widened_fields)
next
  fix i assume "i < length ?lhs"
  then have i: "i < count m" by (simp add: widened_fields)
  have cap: "0 < capacity m" and fr: "front m < capacity m"
    and len: "length (starts m) = capacity m" "length (highs m) = capacity m"
      "length (lows m) = capacity m" and cc: "count m \<le> capacity m"
    using wf by (simp_all add: ring_wf_def)
  show "?lhs ! i = (?c # ?rest) ! i"
  proof (cases i)
    case 0
    have "?lhs ! 0 = nth_newest (widened t m) 0"
      by (rule nth_candles) (simp add: widened_fields c)
    also have "\<dots> = ?c"
      using fr len by (simp add: nth_newest_def widened_def hd_candles [OF wf c] Let_def)
    finally show ?thesis using 0 by simp
  next
    case (Suc j)
    have "(front m + Suc j) mod capacity m \<noteq> front m"
      using i cc Suc by (intro ring_slot_distinct [OF fr]) simp_all
    then have ne: "Suc (front m + j) mod capacity m \<noteq> front m" by simp
    have "?lhs ! Suc j = nth_newest (widened t m) (Suc j)"
      using i Suc by (intro nth_candles) (simp add: widened_fields)
    also have "\<dots> = nth_newest m (Suc j)"
      using ne by (simp add: nth_newest_def widened_def Let_def)
    also have "\<dots> = candles m ! Suc j" using i Suc by (simp add: nth_candles)
    also have "\<dots> = tl (candles m) ! j" using i Suc by (simp add: nth_tl)
    finally show ?thesis using Suc by simp
  qed
qed

lemma candle_model_init_wf:
  assumes "candle_model_init lookback cns = Inr m0"
  shows "ring_wf m0" and "count m0 = 0"
    and "capacity m0 = unat (case lookback of None \<Rightarrow> DEFAULT_LOOKBACK | Some l \<Rightarrow> l) + 1"
    and "candle_ns m0 = (case cns of None \<Rightarrow> DEFAULT_DURATION | Some n \<Rightarrow> n)"
proof -
  let ?l = "case lookback of None \<Rightarrow> DEFAULT_LOOKBACK | Some l \<Rightarrow> l"
  let ?n = "case cns of None \<Rightarrow> DEFAULT_DURATION | Some n \<Rightarrow> n"
  from assms have cap: "1 < unat (1 + ?l)" and ns: "0 <s ?n"
    and m0: "m0 = \<lparr>capacity = unat (1 + ?l), candle_ns = ?n, count = 0, front = 0,
               starts = replicate (unat (1 + ?l)) 0, highs = replicate (unat (1 + ?l)) 0,
               lows = replicate (unat (1 + ?l)) 0\<rparr>"
    by (auto simp add: candle_model_init_def Let_def split: if_splits)
  show "ring_wf m0" using cap ns by (simp add: m0 ring_wf_def)
  show "count m0 = 0" by (simp add: m0)
  show "candle_ns m0 = ?n" by (simp add: m0)
  have "1 + ?l \<noteq> 0" using cap by auto
  then have "unat (1 + ?l) = unat ?l + 1"
    by (simp add: unatSuc)
  then show "capacity m0 = unat ?l + 1" by (simp add: m0)
qed

lemma ring_inv_init:
  assumes "candle_model_init lookback cns = Inr m0"
  shows "ring_inv m0"
  using candle_model_init_wf(1,2) [OF assms] by (simp add: ring_inv_def candles_def)

lemma sorted_wrt_take_cons:
  assumes srt: "sorted_wrt (\<lambda>a b. c_start b < c_start a) cs"
    and hd: "cs \<noteq> [] \<longrightarrow> c_start (hd cs) < s"
    and c: "c_start c = s"
  shows "sorted_wrt (\<lambda>a b. c_start b < c_start a) (c # take n cs)"
proof -
  have "c_start x < s" if "x \<in> set cs" for x
  proof (cases cs)
    case Nil
    with that show ?thesis by simp
  next
    case (Cons y ys)
    with hd have y: "c_start y < s" by simp
    from that Cons have "x = y \<or> x \<in> set ys" by simp
    then show ?thesis
    proof
      assume "x = y" with y show ?thesis by simp
    next
      assume "x \<in> set ys"
      with srt Cons have "c_start x < c_start y" by simp
      with y show ?thesis by simp
    qed
  qed
  then have "\<forall>x\<in>set (take n cs). c_start x < s"
    using set_take_subset [of n cs] by blast
  moreover have "sorted_wrt (\<lambda>a b. c_start b < c_start a) (take n cs)"
    using srt by (rule sorted_wrt_take)
  ultimately show ?thesis using c by simp
qed

lemma pushed_inv:
  assumes inv: "ring_inv m"
    and new: "count m = 0 \<or> starts m ! front m < floor_time (time t) (candle_ns m)"
  shows "ring_inv (pushed t m)"
proof -
  have wf: "ring_wf m" using inv by (simp add: ring_inv_def)
  have hd: "candles m \<noteq> [] \<longrightarrow> c_start (hd (candles m)) < floor_time (time t) (candle_ns m)"
  proof
    assume "candles m \<noteq> []"
    then have c: "0 < count m" by (simp add: candles_def)
    with new show "c_start (hd (candles m)) < floor_time (time t) (candle_ns m)"
      by (simp add: hd_candles [OF wf c])
  qed
  have "sorted_wrt (\<lambda>a b. c_start b < c_start a) (candles (pushed t m))"
    unfolding pushed_candles [OF wf]
    using inv hd by (intro sorted_wrt_take_cons) (simp_all add: ring_inv_def)
  moreover have "\<forall>c\<in>set (candles (pushed t m)). c_low c \<le> c_high c"
    unfolding pushed_candles [OF wf]
    using inv set_take_subset [of "capacity m - 1" "candles m"]
    by (auto simp add: ring_inv_def)
  ultimately show ?thesis using pushed_wf [OF wf] by (simp add: ring_inv_def)
qed

lemma widened_inv:
  assumes inv: "ring_inv m" and c: "0 < count m"
  shows "ring_inv (widened t m)"
proof -
  have wf: "ring_wf m" using inv by (simp add: ring_inv_def)
  have ne: "candles m \<noteq> []" using c by (simp add: candles_def)
  then obtain x xs where cs: "candles m = x # xs" by (cases "candles m") auto
  have "sorted_wrt (\<lambda>a b. c_start b < c_start a) (candles (widened t m))"
    unfolding widened_candles [OF wf c] using inv by (simp add: ring_inv_def cs)
  moreover have "\<forall>c\<in>set (candles (widened t m)). c_low c \<le> c_high c"
    unfolding widened_candles [OF wf c] using inv
    by (auto simp add: ring_inv_def cs min_def max_def)
  ultimately show ?thesis using widened_wf [OF wf] by (simp add: ring_inv_def)
qed

lemma candle_add_trade_inv:
  assumes inv: "ring_inv m" and ok: "candle_add_trade t m = Inr m'"
  shows "ring_inv m'" and "candle_ns m' = candle_ns m" and "capacity m' = capacity m"
    and "0 < count m'"
    and "starts m' ! front m' = floor_time (time t) (candle_ns m)"
proof -
  have wf: "ring_wf m" using inv by (simp add: ring_inv_def)
  have cap: "0 < capacity m" and len: "length (starts m) = capacity m"
    using wf by (simp_all add: ring_wf_def)
  from candle_add_trade_cases [OF wf ok]
  consider (push) "count m = 0 \<or> starts m ! front m < floor_time (time t) (candle_ns m)"
      "m' = pushed t m"
    | (same) "0 < count m" "starts m ! front m = floor_time (time t) (candle_ns m)"
      "m' = widened t m"
    by auto
  then have "ring_inv m' \<and> candle_ns m' = candle_ns m \<and> capacity m' = capacity m \<and> 0 < count m'
    \<and> starts m' ! front m' = floor_time (time t) (candle_ns m)"
  proof cases
    case push
    then show ?thesis
      using pushed_inv [OF inv push(1)] cap len by (simp add: pushed_fields)
  next
    case same
    then show ?thesis
      using widened_inv [OF inv same(1)] by (simp add: widened_fields)
  qed
  then show "ring_inv m'" and "candle_ns m' = candle_ns m" and "capacity m' = capacity m"
    and "0 < count m'" and "starts m' ! front m' = floor_time (time t) (candle_ns m)"
    by simp_all
qed

lemma feed_snoc:
  "feed (ts @ [t]) m = (case feed ts m of Inl e \<Rightarrow> Inl e | Inr m' \<Rightarrow> candle_add_trade t m')"
  by (induction ts arbitrary: m) (auto split: sum.splits)

lemma feed_inv:
  assumes "ring_inv m" and "feed ts m = Inr m'"
  shows "ring_inv m' \<and> candle_ns m' = candle_ns m \<and> capacity m' = capacity m"
  using assms
proof (induction ts arbitrary: m)
  case Nil
  then show ?case by simp
next
  case (Cons t ts)
  from Cons.prems(2) obtain m1 where a: "candle_add_trade t m = Inr m1" and f: "feed ts m1 = Inr m'"
    by (auto split: sum.splits)
  from candle_add_trade_inv [OF Cons.prems(1) a] Cons.IH [OF _ f]
  show ?case by simp
qed

lemma feed_front:
  assumes inv: "ring_inv m" and ok: "feed ts m = Inr m'" and ne: "ts \<noteq> []"
  shows "0 < count m' \<and> starts m' ! front m' = floor_time (time (last ts)) (candle_ns m)"
proof -
  from ne obtain us t where ts: "ts = us @ [t]" by (metis rev_exhaust)
  from ok obtain m1 where f: "feed us m = Inr m1" and a: "candle_add_trade t m1 = Inr m'"
    by (auto simp add: ts feed_snoc split: sum.splits)
  from feed_inv [OF inv f] candle_add_trade_inv(4,5) [OF _ a]
  show ?thesis by (simp add: ts)
qed

lemma floor_time_mono:
  assumes "uint a < 2 ^ 63" "uint b < 2 ^ 63" "a \<le> b" "0 <s ivl"
  shows "floor_time a ivl \<le> floor_time b ivl"
proof -
  have p: "0 < sint ivl" using assms(4) by (simp add: word_sless_alt)
  have "uint a div sint ivl \<le> uint b div sint ivl"
    using assms(3) p by (simp add: word_le_def zdiv_mono1)
  then have "uint a div sint ivl * sint ivl \<le> uint b div sint ivl * sint ivl"
    using p by (simp add: mult_right_mono)
  then show ?thesis
    by (simp add: word_le_def floor_time_uint [OF assms(1,4)] floor_time_uint [OF assms(2,4)])
qed

lemma feed_monotone_succeeds:
  assumes inv: "ring_inv m" and c0: "count m = 0"
    and srt: "sorted (map time ts)" and rng: "\<forall>t\<in>set ts. uint (time t) < 2 ^ 63"
  shows "\<exists>m'. feed ts m = Inr m'"
  using srt rng
proof (induction ts rule: rev_induct)
  case Nil
  then show ?case by simp
next
  case (snoc t us)
  from snoc.prems have srt': "sorted (map time us)" and rng': "\<forall>t\<in>set us. uint (time t) < 2 ^ 63"
    by (simp_all add: sorted_append)
  from snoc.IH [OF srt' rng'] obtain m1 where f: "feed us m = Inr m1" by blast
  from feed_inv [OF inv f] have inv1: "ring_inv m1" and ns: "candle_ns m1 = candle_ns m" by simp_all
  then have wf1: "ring_wf m1" by (simp add: ring_inv_def)
  have pos: "0 <s candle_ns m" using inv by (simp add: ring_inv_def ring_wf_def)
  have "\<not> (0 < count m1 \<and> floor_time (time t) (candle_ns m1) < starts m1 ! front m1)"
  proof (cases "us = []")
    case True
    with f c0 show ?thesis by simp
  next
    case False
    from feed_front [OF inv f False]
    have st: "starts m1 ! front m1 = floor_time (time (last us)) (candle_ns m)" by simp
    have "last us \<in> set us" using False by simp
    then have "time (last us) \<le> time t" and "uint (time (last us)) < 2 ^ 63"
      using snoc.prems by (auto simp add: sorted_append)
    then have "floor_time (time (last us)) (candle_ns m) \<le> floor_time (time t) (candle_ns m)"
      using snoc.prems(2) pos by (intro floor_time_mono) simp_all
    then show ?thesis by (simp add: st ns not_less)
  qed
  then have "count m1 = 0 \<or> starts m1 ! front m1 < floor_time (time t) (candle_ns m1)
    \<or> (0 < count m1 \<and> starts m1 ! front m1 = floor_time (time t) (candle_ns m1))"
    by auto
  then have "\<exists>m'. candle_add_trade t m1 = Inr m'"
    using candle_add_trade_new [OF wf1] candle_add_trade_same by blast
  then show ?case by (simp add: feed_snoc f)
qed

text \<open>Rules for evaluating the model on concrete inputs.\<close>

lemmas time_eval = floor_time_def nsecs_div_def as_ns_def add_time_def diff_times_def
  signed_divide_int_def word_sless_alt word_sle_eq as_interval_def

lemmas ns_eval = NS_PER_US_def NS_PER_MS_def NS_PER_SEC_def NS_PER_MIN_def NS_PER_HOUR_def
  NS_PER_DAY_def NS_PER_YEAR_def

lemma replicate_2: "replicate 2 x = [x, x]"
  by (simp add: numeral_2_eq_2)

lemma replicate_3: "replicate 3 x = [x, x, x]"
  by (simp add: numeral_3_eq_3)

text \<open>
  Claim C4, as amended. Let the candle model be constructed and a non-empty sequence of
  trades with non-decreasing times below \<open>2 ^ 63\<close> be fed to it. Then no \<^verbatim>\<open>add_trade\<close> call
  throws, and afterwards the starts of the stored candles are strictly decreasing from
  front to back, the front candle's start is the floor of the latest trade's time, and
  \<open>low \<le> high\<close> in every stored candle.
\<close>

theorem candle_ring_invariants:
  assumes init: "candle_model_init lookback cns = Inr m0"
    and srt: "sorted (map time trades)"
    and rng: "\<forall>t\<in>set trades. uint (time t) < 2 ^ 63"
    and ne: "trades \<noteq> []"
  shows "\<exists>m. feed trades m0 = Inr m
    \<and> sorted_wrt (\<lambda>a b. c_start b < c_start a) (candles m)
    \<and> candles m \<noteq> []
    \<and> c_start (hd (candles m)) = floor_time (time (last trades)) (candle_ns m)
    \<and> (\<forall>c\<in>set (candles m). c_low c \<le> c_high c)"
proof -
  have inv0: "ring_inv m0" by (rule ring_inv_init [OF init])
  from feed_monotone_succeeds [OF inv0 candle_model_init_wf(2) [OF init] srt rng]
  obtain m where f: "feed trades m0 = Inr m" by blast
  from feed_inv [OF inv0 f]
  have inv: "ring_inv m" and ns: "candle_ns m = candle_ns m0" by simp_all
  from feed_front [OF inv0 f ne]
  have c: "0 < count m"
    and st: "starts m ! front m = floor_time (time (last trades)) (candle_ns m0)"
    by simp_all
  have wf: "ring_wf m" using inv by (simp add: ring_inv_def)
  have "sorted_wrt (\<lambda>a b. c_start b < c_start a) (candles m)"
    using inv by (simp add: ring_inv_def)
  moreover have "candles m \<noteq> []" using c by (simp add: candles_def)
  moreover have "c_start (hd (candles m)) = floor_time (time (last trades)) (candle_ns m)"
    by (simp add: hd_candles [OF wf c] st ns)
  moreover have "\<forall>c\<in>set (candles m). c_low c \<le> c_high c"
    using inv by (simp add: ring_inv_def)
  ultimately show ?thesis using f by blast
qed

text \<open>
  Witness for C4: lookback 1, candles of 60 ns, four trades in three buckets; the oldest
  candle has been overwritten.
\<close>

theorem candle_ring_invariants_witness:
  "candle_model_init (Some 1) (Some 60)
      = Inr \<lparr>capacity = 2, candle_ns = 60, count = 0, front = 0, starts = [0, 0],
             highs = [0, 0], lows = [0, 0]\<rparr>
    \<and> sorted (map time [\<lparr>price = 100, time = 10\<rparr>, \<lparr>price = 105, time = 70\<rparr>,
          \<lparr>price = 95, time = 75\<rparr>, \<lparr>price = 110, time = 130\<rparr>])
    \<and> list_all (\<lambda>t. uint (time t) < 2 ^ 63) [\<lparr>price = 100, time = 10\<rparr>,
          \<lparr>price = 105, time = 70\<rparr>, \<lparr>price = 95, time = 75\<rparr>, \<lparr>price = 110, time = 130\<rparr>]
    \<and> feed [\<lparr>price = 100, time = 10\<rparr>, \<lparr>price = 105, time = 70\<rparr>,
          \<lparr>price = 95, time = 75\<rparr>, \<lparr>price = 110, time = 130\<rparr>]
          \<lparr>capacity = 2, candle_ns = 60, count = 0, front = 0, starts = [0, 0],
           highs = [0, 0], lows = [0, 0]\<rparr>
      = Inr \<lparr>capacity = 2, candle_ns = 60, count = 2, front = 1, starts = [60, 120],
             highs = [105, 110], lows = [95, 110]\<rparr>
    \<and> candles \<lparr>capacity = 2, candle_ns = 60, count = 2, front = 1, starts = [60, 120],
             highs = [105, 110], lows = [95, 110]\<rparr>
      = [\<lparr>c_start = 120, c_high = 110, c_low = 110\<rparr>, \<lparr>c_start = 60, c_high = 105, c_low = 95\<rparr>]
    \<and> floor_time 130 60 = 120"
proof -
  let ?T = "[\<lparr>price = 100, time = 10\<rparr>, \<lparr>price = 105, time = 70\<rparr>,
          \<lparr>price = 95, time = 75\<rparr>, \<lparr>price = 110, time = 130 :: timestamp\<rparr>]"
  have init: "candle_model_init (Some 1) (Some 60)
      = Inr \<lparr>capacity = 2, candle_ns = 60, count = 0, front = 0, starts = [0, 0],
             highs = [0, 0], lows = [0, 0]\<rparr>"
    by (simp add: candle_model_init_def time_eval Let_def replicate_2)
  have srt: "sorted (map time ?T)" by simp
  have rng: "\<forall>t\<in>set ?T. uint (time t) < 2 ^ 63" by simp
  have ne: "?T \<noteq> []" by simp
  have fd: "feed ?T
          \<lparr>capacity = 2, candle_ns = 60, count = 0, front = 0, starts = [0, 0],
           highs = [0, 0], lows = [0, 0]\<rparr>
      = Inr \<lparr>capacity = 2, candle_ns = 60, count = 2, front = 1, starts = [60, 120],
             highs = [105, 110], lows = [95, 110]\<rparr>"
    by (simp add: candle_add_trade_def time_eval Let_def)
  have cs: "candles \<lparr>capacity = 2, candle_ns = 60, count = 2, front = 1, starts = [60, 120],
             highs = [105, 110], lows = [95, 110]\<rparr>
      = [\<lparr>c_start = 120, c_high = 110, c_low = 110\<rparr>, \<lparr>c_start = 60, c_high = 105, c_low = 95\<rparr>]"
    by (simp add: candles_def nth_newest_def Let_def upt_rec)
  have fl: "floor_time 130 60 = (120 :: timestamp)"
    by (simp add: time_eval)
  have "list_all (\<lambda>t. uint (time t) < 2 ^ 63) ?T" by simp
  then show ?thesis
    using candle_ring_invariants [OF init srt rng ne] init srt fd cs fl
    by (simp only: simp_thms)
qed

text \<open>
  Counterexample for C4 as stated: with candles of 10 ns, the times \<open>2 ^ 64 - 25\<close> and
  \<open>2 ^ 64 - 5\<close> are non-decreasing; the first trade opens the candle at \<open>2 ^ 64 - 20\<close>, the
  second floors to 0 and \<^verbatim>\<open>add_trade\<close> throws, so the front candle is not the bucket of
  the latest trade.
\<close>

theorem candle_ring_wrapped_counterexample:
  "candle_model_init (Some 1) (Some 10)
      = Inr \<lparr>capacity = 2, candle_ns = 10, count = 0, front = 0, starts = [0, 0],
             highs = [0, 0], lows = [0, 0]\<rparr>
    \<and> sorted (map time [\<lparr>price = 100, time = 18446744073709551591\<rparr>,
          \<lparr>price = 100, time = 18446744073709551611\<rparr>])
    \<and> candle_add_trade \<lparr>price = 100, time = 18446744073709551591\<rparr>
          \<lparr>capacity = 2, candle_ns = 10, count = 0, front = 0, starts = [0, 0],
           highs = [0, 0], lows = [0, 0]\<rparr>
      = Inr \<lparr>capacity = 2, candle_ns = 10, count = 1, front = 1,
             starts = [0, 18446744073709551596], highs = [0, 100], lows = [0, 100]\<rparr>
    \<and> candle_add_trade \<lparr>price = 100, time = 18446744073709551611\<rparr>
          \<lparr>capacity = 2, candle_ns = 10, count = 1, front = 1,
           starts = [0, 18446744073709551596], highs = [0, 100], lows = [0, 100]\<rparr>
      = Inl (Assertion ''start == starts_[ front_ ]'')
    \<and> floor_time 18446744073709551611 10 = 0
    \<and> c_start (hd (candles \<lparr>capacity = 2, candle_ns = 10, count = 1, front = 1,
           starts = [0, 18446744073709551596], highs = [0, 100], lows = [0, 100]\<rparr>))
      = 18446744073709551596"
  by (simp add: candle_model_init_def candle_add_trade_def time_eval Let_def replicate_2
      candles_def nth_newest_def)

section \<open>Properties of the volatility estimate\<close>

lemma eval_volatility_None_iff:
  assumes "count m \<le> capacity m"
  shows "eval_volatility m = Inr None \<longleftrightarrow> count m < capacity m"
proof (cases "count m < capacity m")
  case True
  then show ?thesis by (simp add: eval_volatility_def)
next
  case False
  with assms have "eval_volatility m \<noteq> Inr None"
    by (cases "vol_loop m 0 0 0") (auto simp add: eval_volatility_def Let_def)
  with False show ?thesis by simp
qed

lemma feed_buckets:
  assumes inv: "ring_inv m" and c0: "count m = 0"
  shows "feed ts m = Inr m' \<Longrightarrow>
    count m' = min (capacity m) (card ((\<lambda>t. floor_time (time t) (candle_ns m)) ` set ts))
    \<and> (ts \<noteq> [] \<longrightarrow> (\<forall>b\<in>(\<lambda>t. floor_time (time t) (candle_ns m)) ` set ts. b \<le> starts m' ! front m'))"
proof (induction ts arbitrary: m' rule: rev_induct)
  case Nil
  then show ?case using c0 by simp
next
  case (snoc t us)
  let ?b = "\<lambda>t. floor_time (time t) (candle_ns m)"
  let ?B = "?b ` set us"
  from snoc.prems obtain m1 where f: "feed us m = Inr m1" and a: "candle_add_trade t m1 = Inr m'"
    by (auto simp add: feed_snoc split: sum.splits)
  from snoc.IH [OF f] have cnt: "count m1 = min (capacity m) (card ?B)"
    and le: "us \<noteq> [] \<Longrightarrow> \<forall>b\<in>?B. b \<le> starts m1 ! front m1" by simp_all
  from feed_inv [OF inv f] have inv1: "ring_inv m1" and ns: "candle_ns m1 = candle_ns m"
    and cap: "capacity m1 = capacity m" by simp_all
  then have wf1: "ring_wf m1" by (simp add: ring_inv_def)
  have cap1: "1 < capacity m" using inv by (simp add: ring_inv_def ring_wf_def)
  have fin: "finite ?B" by simp
  have empty: "us = []" if "count m1 = 0"
  proof -
    from that cnt cap1 have "card ?B = 0" by (simp add: min_def split: if_splits)
    then show ?thesis using fin by simp
  qed
  have st': "starts m' ! front m' = ?b t"
    using candle_add_trade_inv(5) [OF inv1 a] by (simp add: ns)
  have set_eq: "?b ` set (us @ [t]) = insert (?b t) ?B" by auto
  from candle_add_trade_cases [OF wf1 a, unfolded ns]
  consider (push) "count m1 = 0 \<or> starts m1 ! front m1 < ?b t" "m' = pushed t m1"
    | (same) "0 < count m1" "starts m1 ! front m1 = ?b t" "m' = widened t m1"
    by argo
  then show ?case
  proof cases
    case push
    have notin: "?b t \<notin> ?B"
    proof (cases "us = []")
      case True
      then show ?thesis by simp
    next
      case False
      with push(1) empty have lt: "starts m1 ! front m1 < ?b t" by auto
      show ?thesis
      proof
        assume "?b t \<in> ?B"
        with le [OF False] have "?b t \<le> starts m1 ! front m1" by blast
        with lt show False by simp
      qed
    qed
    have all: "\<forall>b\<in>insert (?b t) ?B. b \<le> ?b t"
    proof (cases "us = []")
      case True
      then show ?thesis by simp
    next
      case False
      with push(1) empty have lt: "starts m1 ! front m1 < ?b t" by auto
      with le [OF False] show ?thesis by fastforce
    qed
    have "count m' = min (count m1 + 1) (capacity m)"
      by (simp add: push(2) pushed_fields cap)
    also have "\<dots> = min (capacity m) (card (insert (?b t) ?B))"
      using notin fin cnt by (simp add: min_def)
    finally have "count m' = min (capacity m) (card (?b ` set (us @ [t])))"
      by (simp only: set_eq)
    moreover have "\<forall>b\<in>?b ` set (us @ [t]). b \<le> starts m' ! front m'"
      using all by (simp only: set_eq st')
    ultimately show ?thesis by blast
  next
    case same
    have ne: "us \<noteq> []" using same(1) cnt by auto
    from feed_front [OF inv f ne] have "starts m1 ! front m1 = ?b (last us)" by simp
    moreover have "last us \<in> set us" using ne by simp
    ultimately have "?b t \<in> ?B" using same(2) by (metis imageI)
    then have ins: "insert (?b t) ?B = ?B" by auto
    have "count m' = count m1" by (simp add: same(3) widened_fields)
    then have "count m' = min (capacity m) (card (?b ` set (us @ [t])))"
      using cnt by (simp only: set_eq ins)
    moreover have "\<forall>b\<in>?b ` set (us @ [t]). b \<le> starts m' ! front m'"
      using le [OF ne] same(2) by (simp only: set_eq ins st')
    ultimately show ?thesis by blast
  qed
qed

lemma vol_loop_step:
  assumes wf: "ring_wf m" and i: "i + 1 < count m"
  shows "vol_loop m i numer denom =
    (if loop_checks (candle_ns m) (candles m ! i) (candles m ! (i + 1))
     then vol_loop m (i + 1) (numer + (pair_log_ratio (candles m ! i) (candles m ! (i + 1)))\<^sup>2)
            (denom + loop_span (candle_ns m) (candles m ! i) (candles m ! (i + 1)))
     else Inl (if \<not> 0 < min (c_low (candles m ! i)) (c_low (candles m ! (i + 1)))
               then Assertion ''min_low > 0''
               else if \<not> min (c_low (candles m ! i)) (c_low (candles m ! (i + 1)))
                        \<le> max (c_high (candles m ! i)) (c_high (candles m ! (i + 1)))
               then Assertion ''min_low <= max_high''
               else Assertion ''cur_end > prev_start''))"
proof -
  define cur where "cur = (front m + i) mod capacity m"
  define prev where "prev = (cur + 1) mod capacity m"
  have prev': "prev = (front m + (i + 1)) mod capacity m"
    unfolding prev_def cur_def by (simp add: mod_Suc_eq)
  have c1: "candles m ! i = \<lparr>c_start = starts m ! cur, c_high = highs m ! cur, c_low = lows m ! cur\<rparr>"
    using i by (simp add: nth_candles nth_newest_def Let_def cur_def)
  have c2: "candles m ! (i + 1) = \<lparr>c_start = starts m ! prev, c_high = highs m ! prev, c_low = lows m ! prev\<rparr>"
    using i by (simp add: nth_candles nth_newest_def Let_def prev')
  define mx where "mx = max (highs m ! cur) (highs m ! prev)"
  define mn where "mn = min (lows m ! cur) (lows m ! prev)"
  define ce where "ce = add_time (starts m ! cur) (candle_ns m)"
  define ps where "ps = starts m ! prev"
  define nxt where "nxt = vol_loop m (i + 1) (numer + ln (mx / mn) * ln (mx / mn))
    (denom + as_interval (diff_times ce ps))"
  have "vol_loop m i numer denom =
    (if \<not> 0 < mn then Inl (Assertion ''min_low > 0'')
     else if \<not> mn \<le> mx then Inl (Assertion ''min_low <= max_high'')
     else if \<not> ps < ce then Inl (Assertion ''cur_end > prev_start'')
     else nxt)"
    by (subst vol_loop.simps)
      (simp only: i if_True Let_def cur_def prev_def mx_def mn_def ce_def ps_def nxt_def)
  also have "\<dots> = (if 0 < mn \<and> mn \<le> mx \<and> ps < ce then nxt
     else Inl (if \<not> 0 < mn then Assertion ''min_low > 0''
               else if \<not> mn \<le> mx then Assertion ''min_low <= max_high''
               else Assertion ''cur_end > prev_start''))"
    by simp
  finally show ?thesis
    unfolding c1 c2 loop_checks_def pair_log_ratio_def loop_span_def power2_eq_square
      candle.simps mx_def mn_def ce_def ps_def nxt_def .
qed


lemma vol_loop_done:
  assumes "\<not> i + 1 < count m"
  shows "vol_loop m i numer denom = Inr (numer, denom)"
  using assms by (subst vol_loop.simps) simp

lemma vol_loop_ok:
  assumes wf: "ring_wf m"
  shows "list_all (\<lambda>j. loop_checks (candle_ns m) (candles m ! j) (candles m ! (j + 1))) [i..<count m - 1]
    \<Longrightarrow> vol_loop m i numer denom =
      Inr (numer + (\<Sum>j\<leftarrow>[i..<count m - 1]. (pair_log_ratio (candles m ! j) (candles m ! (j + 1)))\<^sup>2),
           denom + (\<Sum>j\<leftarrow>[i..<count m - 1]. loop_span (candle_ns m) (candles m ! j) (candles m ! (j + 1))))"
proof (induction k \<equiv> "count m - 1 - i" arbitrary: i numer denom)
  case 0
  then have stop: "\<not> i + 1 < count m" by simp
  then have e: "[i..<count m - 1] = []" by simp
  show ?case unfolding e vol_loop_done [OF stop] by simp
next
  case (Suc k)
  then have lt: "i + 1 < count m" by simp
  then have up: "[i..<count m - 1] = i # [i + 1..<count m - 1]"
    by (simp add: upt_conv_Cons)
  from Suc.prems [unfolded up]
  have ok: "loop_checks (candle_ns m) (candles m ! i) (candles m ! (i + 1))"
    and rest: "list_all (\<lambda>j. loop_checks (candle_ns m) (candles m ! j) (candles m ! (j + 1)))
      [i + 1..<count m - 1]"
    by simp_all
  have k: "k = count m - 1 - (i + 1)" using Suc.hyps(2) by simp
  have "vol_loop m i numer denom =
    vol_loop m (i + 1) (numer + (pair_log_ratio (candles m ! i) (candles m ! (i + 1)))\<^sup>2)
      (denom + loop_span (candle_ns m) (candles m ! i) (candles m ! (i + 1)))"
    using ok by (simp only: vol_loop_step [OF wf lt] if_True)
  also have "\<dots> = Inr (numer + (pair_log_ratio (candles m ! i) (candles m ! (i + 1)))\<^sup>2
      + (\<Sum>j\<leftarrow>[i + 1..<count m - 1]. (pair_log_ratio (candles m ! j) (candles m ! (j + 1)))\<^sup>2),
    denom + loop_span (candle_ns m) (candles m ! i) (candles m ! (i + 1))
      + (\<Sum>j\<leftarrow>[i + 1..<count m - 1]. loop_span (candle_ns m) (candles m ! j) (candles m ! (j + 1))))"
    by (rule Suc.hyps(1) [OF k rest])
  finally show ?case
    unfolding up by (simp add: add.assoc)
qed

lemma vol_loop_fails:
  assumes wf: "ring_wf m"
  shows "\<not> list_all (\<lambda>j. loop_checks (candle_ns m) (candles m ! j) (candles m ! (j + 1))) [i..<count m - 1]
    \<Longrightarrow> isl (vol_loop m i numer denom)"
proof (induction k \<equiv> "count m - 1 - i" arbitrary: i numer denom)
  case 0
  then have e: "[i..<count m - 1] = []" by simp
  from "0.prems" [unfolded e] show ?case by simp
next
  case (Suc k)
  then have lt: "i + 1 < count m" by simp
  then have up: "[i..<count m - 1] = i # [i + 1..<count m - 1]"
    by (simp add: upt_conv_Cons)
  have k: "k = count m - 1 - (i + 1)" using Suc.hyps(2) by simp
  show ?case
  proof (cases "loop_checks (candle_ns m) (candles m ! i) (candles m ! (i + 1))")
    case True
    with Suc.prems [unfolded up]
    have rest: "\<not> list_all (\<lambda>j. loop_checks (candle_ns m) (candles m ! j) (candles m ! (j + 1)))
      [i + 1..<count m - 1]"
      by simp
    have "vol_loop m i numer denom =
      vol_loop m (i + 1) (numer + (pair_log_ratio (candles m ! i) (candles m ! (i + 1)))\<^sup>2)
        (denom + loop_span (candle_ns m) (candles m ! i) (candles m ! (i + 1)))"
      using True by (simp only: vol_loop_step [OF wf lt] if_True)
    then show ?thesis using Suc.hyps(1) [OF k rest] by simp
  next
    case False
    then show ?thesis by (simp only: vol_loop_step [OF wf lt] if_False sum.disc)
  qed
qed


text \<open>
  The loop of \<^verbatim>\<open>eval_volatility\<close> against the sums of the specification: the checks and
  the span of a pair agree with their exact counterparts when the newer candle ends below
  \<open>2 ^ 63\<close>.
\<close>


lemma uint_of_nonneg_sint:
  fixes w :: "64 word"
  assumes "0 \<le> sint w"
  shows "uint w = sint w"
proof -
  have lt: "sint w < 2 ^ 63" using sint_less [of w] by simp
  have "(2::int) ^ 63 < 2 ^ 64" by simp
  with lt have lt': "sint w < 2 ^ 64" by linarith
  have "uint w = uint (word_of_int (sint w) :: 64 word)" by simp
  also have "\<dots> = sint w mod 2 ^ 64" by (simp only: uint_word_of_int) simp
  also have "\<dots> = sint w" using assms lt' by (rule mod_pos_pos_trivial)
  finally show ?thesis .
qed

lemma add_time_in_range:
  assumes ns: "0 <s ns" and r: "uint a + sint ns < 2 ^ 63"
  shows "uint (add_time a ns) = uint a + sint ns"
proof -
  have p: "0 \<le> sint ns" using ns by (simp add: word_sless_alt)
  have u: "uint ns = sint ns" by (rule uint_of_nonneg_sint [OF p])
  have "(2::int) ^ 63 < 2 ^ 64" by simp
  then have "uint a + uint ns < 2 ^ 64" using r u by linarith
  then have "uint a + uint ns < 2 ^ LENGTH(64)" by simp
  then have "uint (a + ns) = uint a + uint ns"
    by (rule uint_add_lem [THEN iffD1])
  with u show ?thesis by (simp add: add_time_def as_ns_def)
qed


lemma loop_pair_spec:
  assumes ns: "0 <s ns" and r: "uint (c_start cur) + sint ns < 2 ^ 63"
  shows "loop_checks ns cur prev = pair_ok ns cur prev"
    and "pair_ok ns cur prev \<Longrightarrow> loop_span ns cur prev = pair_span ns cur prev"
proof -
  let ?e = "add_time (c_start cur) ns"
  have e: "uint ?e = uint (c_start cur) + sint ns" by (rule add_time_in_range [OF ns r])
  have lt: "c_start prev < ?e \<longleftrightarrow> uint (c_start prev) < uint (c_start cur) + sint ns"
    by (simp only: word_less_def e)
  show "loop_checks ns cur prev = pair_ok ns cur prev"
    by (simp only: loop_checks_def pair_ok_def lt)
  assume "pair_ok ns cur prev"
  then have l: "uint (c_start prev) < uint ?e" by (simp only: pair_ok_def e)
  then have "uint (c_start prev) \<le> uint ?e" by simp
  then have d: "uint (?e - c_start prev) = uint ?e - uint (c_start prev)"
    by (rule uint_sub_lem [THEN iffD1])
  have "0 \<le> uint (c_start prev)" by simp
  then have "uint (?e - c_start prev) < 2 ^ 63" using d e r by linarith
  then have "sint (?e - c_start prev) = uint (?e - c_start prev)"
    by (rule sint_nonneg_uint)
  then have "sint (?e - c_start prev) = uint (c_start cur) + sint ns - uint (c_start prev)"
    by (simp only: d e)
  then show "loop_span ns cur prev = pair_span ns cur prev"
    by (simp only: loop_span_def pair_span_def diff_times_def as_ns_def as_interval_def)
qed

lemma loop_pairs_spec:
  assumes wf: "ring_wf m" and rng: "ends_in_range (candle_ns m) (candles m)"
    and j: "j < count m"
  shows "loop_checks (candle_ns m) (candles m ! j) c = pair_ok (candle_ns m) (candles m ! j) c"
    and "pair_ok (candle_ns m) (candles m ! j) c
      \<Longrightarrow> loop_span (candle_ns m) (candles m ! j) c = pair_span (candle_ns m) (candles m ! j) c"
proof -
  have ns: "0 <s candle_ns m" using wf by (simp add: ring_wf_def)
  have "candles m ! j \<in> set (candles m)" using j by simp
  with rng have r: "uint (c_start (candles m ! j)) + sint (candle_ns m) < 2 ^ 63"
    by (simp add: ends_in_range_def list_all_iff)
  show "loop_checks (candle_ns m) (candles m ! j) c = pair_ok (candle_ns m) (candles m ! j) c"
    by (rule loop_pair_spec(1) [OF ns r])
  show "pair_ok (candle_ns m) (candles m ! j) c
      \<Longrightarrow> loop_span (candle_ns m) (candles m ! j) c = pair_span (candle_ns m) (candles m ! j) c"
    by (rule loop_pair_spec(2) [OF ns r])
qed

lemma sum_list_pos:
  fixes f :: "nat \<Rightarrow> real"
  assumes "xs \<noteq> []" and "\<forall>x\<in>set xs. 0 < f x"
  shows "0 < (\<Sum>x\<leftarrow>xs. f x)"
  using assms
proof (induction xs)
  case Nil
  then show ?case by simp
next
  case (Cons x xs)
  show ?case
  proof (cases "xs = []")
    case True
    with Cons.prems show ?thesis by simp
  next
    case False
    with Cons have "0 < (\<Sum>x\<leftarrow>xs. f x)" by simp
    moreover have "0 < f x" using Cons.prems by simp
    ultimately show ?thesis by simp
  qed
qed

lemma pair_span_pos:
  assumes "pair_ok ns cur prev"
  shows "0 < pair_span ns cur prev"
proof -
  from assms have "uint (c_start prev) < uint (c_start cur) + sint ns"
    unfolding pair_ok_def by blast
  then have "0 < uint (c_start cur) + sint ns - uint (c_start prev)" by linarith
  then show ?thesis
    unfolding pair_span_def by (rule of_int_pos)
qed

lemma eval_volatility_spec:
  assumes wf: "ring_wf m" and full: "count m = capacity m"
    and rng: "ends_in_range (candle_ns m) (candles m)"
    and ok: "pairs_ok (candle_ns m) (candles m)"
  shows "eval_volatility m = Inr (Some (Finite (spec_volatility (candle_ns m) (candles m))))"
proof -
  let ?cs = "candles m" and ?ns = "candle_ns m"
  let ?is = "[0..<count m - 1]"
  have cap: "1 < count m" using wf full by (simp add: ring_wf_def)
  have okj: "pair_ok ?ns (?cs ! j) (?cs ! (j + 1))" if "j \<in> set ?is" for j
    using ok that unfolding pairs_ok_def list_all_iff length_candles by blast
  have lc: "list_all (\<lambda>j. loop_checks ?ns (?cs ! j) (?cs ! (j + 1))) ?is"
    unfolding list_all_iff
  proof
    fix j assume j: "j \<in> set ?is"
    then have "j < count m" by simp
    from loop_pairs_spec(1) [OF wf rng this] okj [OF j]
    show "loop_checks ?ns (?cs ! j) (?cs ! (j + 1))" by (simp only:)
  qed
  have sp: "map (\<lambda>j. loop_span ?ns (?cs ! j) (?cs ! (j + 1))) ?is
      = map (\<lambda>j. pair_span ?ns (?cs ! j) (?cs ! (j + 1))) ?is"
  proof (rule map_cong [OF refl])
    fix j assume j: "j \<in> set ?is"
    then have "j < count m" by simp
    from loop_pairs_spec(2) [OF wf rng this okj [OF j]]
    show "loop_span ?ns (?cs ! j) (?cs ! (j + 1)) = pair_span ?ns (?cs ! j) (?cs ! (j + 1))" .
  qed
  define S where "S = (\<Sum>j\<leftarrow>?is. pair_span ?ns (?cs ! j) (?cs ! (j + 1)))"
  define N where "N = spec_numer ?cs"
  have ne: "?is \<noteq> []" using cap by simp
  have "\<forall>j\<in>set ?is. 0 < pair_span ?ns (?cs ! j) (?cs ! (j + 1))"
    using okj pair_span_pos by blast
  with ne have Spos: "0 < S"
    unfolding S_def by (rule sum_list_pos)
  have Nnn: "0 \<le> N"
    unfolding N_def spec_numer_def by (rule sum_list_nonneg) auto
  have vl: "vol_loop m 0 0 0 = Inr (N, S)"
    unfolding N_def S_def spec_numer_def length_candles sp [symmetric]
    using vol_loop_ok [OF wf lc, of 0 0] by simp
  have den: "spec_denom ?ns ?cs = S * (4 * ln 2)"
    unfolding spec_denom_def S_def length_candles ..
  have l2: "0 < ln (2 :: real)" by simp
  have dpos: "0 < S * (ln 2 * 4)" using Spos l2 by simp
  have yr: "0 < as_interval NS_PER_YEAR" by (simp add: as_interval_def ns_eval)
  have rad: "0 \<le> N / (S * (ln 2 * 4)) * as_interval NS_PER_YEAR"
    using Nnn dpos yr by simp
  from dpos have nz: "S * (ln 2 * 4) \<noteq> 0" by (rule less_imp_neq [THEN not_sym])
  have dd: "double_div N (S * (ln 2 * 4)) = Finite (N / (S * (ln 2 * 4)))"
    unfolding double_div_def using nz by (simp only: if_False)
  have "eval_volatility m = Inr (Some (double_sqrt (double_times
      (double_div N (S * (ln 2 * 4))) (as_interval NS_PER_YEAR))))"
    using full by (simp add: eval_volatility_def vl Let_def)
  also have "\<dots> = Inr (Some (Finite (sqrt (N / (S * (ln 2 * 4)) * as_interval NS_PER_YEAR))))"
    using rad by (simp only: dd double_times.simps double_sqrt.simps not_less [symmetric] if_False)
  also have "sqrt (N / (S * (ln 2 * 4)) * as_interval NS_PER_YEAR)
      = spec_volatility ?ns ?cs"
    by (simp only: spec_volatility_def den N_def mult.commute [of 4 "ln 2"])
  finally show ?thesis .
qed

text \<open>
  Claim C1, as amended. When the ring is full and every stored candle ends below
  \<open>2 ^ 63\<close> nanoseconds, \<^verbatim>\<open>eval_volatility\<close> returns the volatility the specification words,
  \<open>sqrt (numer / denom * NS_PER_YEAR)\<close> over the adjacent pairs of stored candles from the
  newest on, \<open>numer\<close> the sum of the squares of \<open>ln (max_high / min_low)\<close> and \<open>denom\<close> the sum
  of the numbers \<open>cur.start + candle_duration_ns - prev.start\<close> multiplied by \<open>4 * ln 2\<close>,
  provided every pair meets the specification's requirements (\<open>0 < min_low \<le> max_high\<close> and
  \<open>cur_end > prev.start\<close>); when a pair does not, it throws. The sums of the specification
  are taken in exact arithmetic; those of the code in the wrapping arithmetic of
  \<^verbatim>\<open>timestamp\<close> and \<^verbatim>\<open>nsecs\<close>.
\<close>

theorem eval_volatility_full_ring:
  assumes wf: "ring_wf m" and full: "count m = capacity m"
    and rng: "ends_in_range (candle_ns m) (candles m)"
  shows "(pairs_ok (candle_ns m) (candles m) \<longrightarrow>
        eval_volatility m = Inr (Some (Finite (spec_volatility (candle_ns m) (candles m)))))
    \<and> (\<not> pairs_ok (candle_ns m) (candles m) \<longrightarrow> isl (eval_volatility m))"
proof (intro conjI impI)
  assume "pairs_ok (candle_ns m) (candles m)"
  then show "eval_volatility m
      = Inr (Some (Finite (spec_volatility (candle_ns m) (candles m))))"
    by (rule eval_volatility_spec [OF wf full rng])
next
  assume nok: "\<not> pairs_ok (candle_ns m) (candles m)"
  have "\<not> list_all (\<lambda>j. loop_checks (candle_ns m) (candles m ! j) (candles m ! (j + 1)))
      [0..<count m - 1]"
  proof
    assume lc: "list_all (\<lambda>j. loop_checks (candle_ns m) (candles m ! j) (candles m ! (j + 1)))
      [0..<count m - 1]"
    have "pair_ok (candle_ns m) (candles m ! j) (candles m ! (j + 1))"
      if j: "j \<in> set [0..<count m - 1]" for j
    proof -
      from j have "j < count m" by simp
      from lc j have "loop_checks (candle_ns m) (candles m ! j) (candles m ! (j + 1))"
        unfolding list_all_iff by blast
      then show ?thesis
        by (simp only: loop_pairs_spec(1) [OF wf rng \<open>j < count m\<close>])
    qed
    then have "pairs_ok (candle_ns m) (candles m)"
      unfolding pairs_ok_def list_all_iff length_candles by blast
    with nok show False ..
  qed
  from vol_loop_fails [OF wf this, of 0 0]
  obtain e where "vol_loop m 0 0 0 = Inl e" by (cases "vol_loop m 0 0 0") auto
  then show "isl (eval_volatility m)"
    using full by (simp add: eval_volatility_def)
qed


lemma three_candle_feed:
  "candle_model_init (Some 2) (Some 60)
      = Inr \<lparr>capacity = 3, candle_ns = 60, count = 0, front = 0, starts = [0, 0, 0],
             highs = [0, 0, 0], lows = [0, 0, 0]\<rparr>"
  "feed [\<lparr>price = 100, time = 10\<rparr>, \<lparr>price = 105, time = 70\<rparr>,
          \<lparr>price = 95, time = 75\<rparr>, \<lparr>price = 110, time = 130\<rparr>]
          \<lparr>capacity = 3, candle_ns = 60, count = 0, front = 0, starts = [0, 0, 0],
           highs = [0, 0, 0], lows = [0, 0, 0]\<rparr>
      = Inr \<lparr>capacity = 3, candle_ns = 60, count = 3, front = 0, starts = [120, 60, 0],
             highs = [110, 105, 100], lows = [110, 95, 100]\<rparr>"
  "candles \<lparr>capacity = 3, candle_ns = 60, count = 3, front = 0, starts = [120, 60, 0],
             highs = [110, 105, 100], lows = [110, 95, 100]\<rparr>
      = [\<lparr>c_start = 120, c_high = 110, c_low = 110\<rparr>, \<lparr>c_start = 60, c_high = 105, c_low = 95\<rparr>,
         \<lparr>c_start = 0, c_high = 100, c_low = 100\<rparr>]"
  by (simp_all add: candle_model_init_def candle_add_trade_def time_eval Let_def replicate_3
      candles_def nth_newest_def upt_rec)

text \<open>
  Witness for C1: lookback 2 and candles of 60 ns; four trades in three buckets fill the
  ring, which holds two adjacent pairs, each spanning 120 ns.
\<close>

theorem eval_volatility_full_ring_witness:
  "feed [\<lparr>price = 100, time = 10\<rparr>, \<lparr>price = 105, time = 70\<rparr>,
          \<lparr>price = 95, time = 75\<rparr>, \<lparr>price = 110, time = 130\<rparr>]
          \<lparr>capacity = 3, candle_ns = 60, count = 0, front = 0, starts = [0, 0, 0],
           highs = [0, 0, 0], lows = [0, 0, 0]\<rparr>
      = Inr \<lparr>capacity = 3, candle_ns = 60, count = 3, front = 0, starts = [120, 60, 0],
             highs = [110, 105, 100], lows = [110, 95, 100]\<rparr>
    \<and> ring_wf \<lparr>capacity = 3, candle_ns = 60, count = 3, front = 0, starts = [120, 60, 0],
             highs = [110, 105, 100], lows = [110, 95, 100]\<rparr>
    \<and> candles \<lparr>capacity = 3, candle_ns = 60, count = 3, front = 0, starts = [120, 60, 0],
             highs = [110, 105, 100], lows = [110, 95, 100]\<rparr>
      = [\<lparr>c_start = 120, c_high = 110, c_low = 110\<rparr>, \<lparr>c_start = 60, c_high = 105, c_low = 95\<rparr>,
         \<lparr>c_start = 0, c_high = 100, c_low = 100\<rparr>]
    \<and> ends_in_range 60 [\<lparr>c_start = 120, c_high = 110, c_low = 110\<rparr>,
          \<lparr>c_start = 60, c_high = 105, c_low = 95\<rparr>, \<lparr>c_start = 0, c_high = 100, c_low = 100\<rparr>]
    \<and> pairs_ok 60 [\<lparr>c_start = 120, c_high = 110, c_low = 110\<rparr>,
          \<lparr>c_start = 60, c_high = 105, c_low = 95\<rparr>, \<lparr>c_start = 0, c_high = 100, c_low = 100\<rparr>]
    \<and> eval_volatility \<lparr>capacity = 3, candle_ns = 60, count = 3, front = 0, starts = [120, 60, 0],
             highs = [110, 105, 100], lows = [110, 95, 100]\<rparr>
      = Inr (Some (Finite (spec_volatility 60 [\<lparr>c_start = 120, c_high = 110, c_low = 110\<rparr>,
          \<lparr>c_start = 60, c_high = 105, c_low = 95\<rparr>, \<lparr>c_start = 0, c_high = 100, c_low = 100\<rparr>])))
    \<and> spec_volatility 60 [\<lparr>c_start = 120, c_high = 110, c_low = 110\<rparr>,
          \<lparr>c_start = 60, c_high = 105, c_low = 95\<rparr>, \<lparr>c_start = 0, c_high = 100, c_low = 100\<rparr>]
      = sqrt (((ln (110 / 95))\<^sup>2 + (ln (105 / 95))\<^sup>2) / ((120 + 120) * (4 * ln 2))
              * 31536000000000000)"
proof -
  let ?M = "\<lparr>capacity = 3, candle_ns = 60, count = 3, front = 0, starts = [120, 60, 0],
             highs = [110, 105, 100], lows = [110, 95, 100]\<rparr>"
  let ?cs = "[\<lparr>c_start = 120, c_high = 110, c_low = 110\<rparr>, \<lparr>c_start = 60, c_high = 105, c_low = 95\<rparr>,
         \<lparr>c_start = 0, c_high = 100, c_low = 100\<rparr>]"
  have wf: "ring_wf ?M" by (simp add: ring_wf_def word_sless_alt)
  have full: "count ?M = capacity ?M" by simp
  note cs = three_candle_feed(3)
  have rng: "ends_in_range 60 ?cs" by (simp add: ends_in_range_def)
  have ok: "pairs_ok 60 ?cs"
    by (simp add: pairs_ok_def pair_ok_def upt_rec)
  have val: "spec_volatility 60 ?cs
      = sqrt (((ln (110 / 95))\<^sup>2 + (ln (105 / 95))\<^sup>2) / ((120 + 120) * (4 * ln 2))
              * 31536000000000000)"
    by (simp add: spec_volatility_def spec_numer_def spec_denom_def pair_log_ratio_def
        pair_span_def as_interval_def ns_eval upt_rec)
  from eval_volatility_full_ring [OF wf full] rng ok
  have "eval_volatility ?M = Inr (Some (Finite (spec_volatility 60 ?cs)))"
    by (simp only: cs candle_model.simps simp_thms)
  then show ?thesis using wf cs rng ok val three_candle_feed(2) by (simp only: simp_thms)
qed

lemma far_candle_model_eq:
  "far_candle_model = \<lparr>capacity = 2, candle_ns = 60000000000, count = 2, front = 0,
     starts = [9223372020000000000, 0], highs = [110, 100], lows = [110, 100]\<rparr>"
  by (simp add: far_candle_model_def candle_model_init_def candle_add_trade_def
      DEFAULT_DURATION_def ns_eval time_eval Let_def replicate_2)

lemma far_candles:
  "candles far_candle_model = [\<lparr>c_start = 9223372020000000000, c_high = 110, c_low = 110\<rparr>,
     \<lparr>c_start = 0, c_high = 100, c_low = 100\<rparr>]"
  by (simp add: far_candle_model_eq candles_def nth_newest_def Let_def upt_rec)

text \<open>
  Counterexample for C1 as stated: with the default candles of one minute and lookback 1,
  trades at time 0 and at time \<open>2 ^ 63 - 1\<close> fill the ring with candles that meet every
  requirement of the specification; the true span of the pair is positive, so the
  specification's formula is a positive number. The code's \<^verbatim>\<open>cur_end\<close> passes \<open>2 ^ 63\<close>, the
  signed difference \<^verbatim>\<open>cur_end - prev_start\<close> is negative, and \<^verbatim>\<open>eval_volatility\<close> returns the
  square root of a negative number, a NaN.
\<close>

theorem eval_volatility_wrapped_counterexample:
  "far_candle_model = \<lparr>capacity = 2, candle_ns = 60000000000, count = 2, front = 0,
       starts = [9223372020000000000, 0], highs = [110, 100], lows = [110, 100]\<rparr>
    \<and> count far_candle_model = capacity far_candle_model
    \<and> pairs_ok (candle_ns far_candle_model) (candles far_candle_model)
    \<and> 0 < spec_volatility (candle_ns far_candle_model) (candles far_candle_model)
    \<and> eval_volatility far_candle_model = Inr (Some NaN)"
proof -
  have l: "0 < ln (11 / 10 :: real)" by simp
  have l2: "0 < ln (2 :: real)" by simp
  have ok: "pairs_ok (candle_ns far_candle_model) (candles far_candle_model)"
    by (simp add: far_candles pairs_ok_def pair_ok_def) (simp add: far_candle_model_eq)
  have num: "spec_numer (candles far_candle_model) = (ln (11 / 10))\<^sup>2"
    by (simp add: far_candles spec_numer_def pair_log_ratio_def)
  have den: "spec_denom (candle_ns far_candle_model) (candles far_candle_model)
      = 9223372080000000000 * (4 * ln 2)"
    by (simp add: far_candles spec_denom_def pair_span_def) (simp add: far_candle_model_eq)
  have "0 < (ln (11 / 10 :: real))\<^sup>2 / (9223372080000000000 * (4 * ln 2))
      * as_interval NS_PER_YEAR"
    using l l2 by (simp add: as_interval_def ns_eval)
  then have pos: "0 < spec_volatility (candle_ns far_candle_model) (candles far_candle_model)"
    by (simp only: spec_volatility_def num den real_sqrt_gt_0_iff)
  have vl: "vol_loop far_candle_model 0 0 0
      = Inr (ln (11 / 10) * ln (11 / 10), - 9223371993709551616)"
    unfolding far_candle_model_eq
    by (subst vol_loop.simps) (simp add: Let_def time_eval vol_loop_done)
  have nz: "- 9223371993709551616 * (ln 2 * 4) \<noteq> (0 :: real)" using l2 by simp
  have neg: "ln (11 / 10) * ln (11 / 10) / (- 9223371993709551616 * (ln 2 * 4))
      * as_interval NS_PER_YEAR < (0 :: real)"
    using l l2 by (simp add: as_interval_def ns_eval divide_less_0_iff mult_less_0_iff
        zero_less_mult_iff)
  have dv: "double_div (ln (11 / 10) * ln (11 / 10)) (- 9223371993709551616 * (ln 2 * 4))
      = Finite (ln (11 / 10) * ln (11 / 10) / (- 9223371993709551616 * (ln 2 * 4)))"
    using nz by (simp only: double_div_def if_False)
  have sq: "double_sqrt (double_times
        (double_div (ln (11 / 10) * ln (11 / 10)) (- 9223371993709551616 * (ln 2 * 4)))
        (as_interval NS_PER_YEAR)) = NaN"
    using neg by (simp only: dv double_times.simps double_sqrt.simps if_True)
  have ev: "eval_volatility far_candle_model = Inr (Some NaN)"
  proof -
    have cc: "count far_candle_model = 2" "capacity far_candle_model = 2"
      by (simp_all add: far_candle_model_eq)
    show ?thesis
      unfolding eval_volatility_def vl
      by (simp only: sum.case prod.case Let_def sq cc) simp
  qed
  show ?thesis
    using far_candle_model_eq ok pos ev by (simp add: far_candle_model_eq)
qed


text \<open>
  Claim C2, as amended. Let the candle model be constructed and a sequence of trades with
  non-decreasing times below \<open>2 ^ 63\<close> be fed to it. Then every \<^verbatim>\<open>add_trade\<close> call returns,
  and afterwards \<^verbatim>\<open>eval_volatility\<close> returns an absent optional if and only if fewer than
  \<open>lookback + 1\<close> distinct candle buckets have been seen, and \<^verbatim>\<open>eval_at_time\<close> returns what
  \<^verbatim>\<open>eval_volatility\<close> returns, whatever its timestamp.
\<close>

theorem eval_volatility_absent_iff:
  assumes init: "candle_model_init lookback cns = Inr m0"
    and srt: "sorted (map time trades)"
    and rng: "\<forall>t\<in>set trades. uint (time t) < 2 ^ 63"
  shows "\<exists>m. feed trades m0 = Inr m
    \<and> (eval_volatility m = Inr None \<longleftrightarrow>
        card ((\<lambda>t. floor_time (time t) (candle_ns m0)) ` set trades)
          < unat (case lookback of None \<Rightarrow> DEFAULT_LOOKBACK | Some l \<Rightarrow> l) + 1)
    \<and> candle_eval_at_time now m = eval_volatility m"
proof -
  let ?B = "(\<lambda>t. floor_time (time t) (candle_ns m0)) ` set trades"
  have inv0: "ring_inv m0" by (rule ring_inv_init [OF init])
  have cap0: "capacity m0 = unat (case lookback of None \<Rightarrow> DEFAULT_LOOKBACK | Some l \<Rightarrow> l) + 1"
    by (rule candle_model_init_wf(3) [OF init])
  from feed_monotone_succeeds [OF inv0 candle_model_init_wf(2) [OF init] srt rng]
  obtain m where fd: "feed trades m0 = Inr m" by blast
  from feed_inv [OF inv0 fd] have inv: "ring_inv m" and cap: "capacity m = capacity m0"
    by simp_all
  then have le: "count m \<le> capacity m" by (simp add: ring_inv_def ring_wf_def)
  from feed_buckets [OF inv0 candle_model_init_wf(2) [OF init] fd]
  have cnt: "count m = min (capacity m0) (card ?B)" by simp
  have "eval_volatility m = Inr None \<longleftrightarrow> count m < capacity m"
    by (rule eval_volatility_None_iff [OF le])
  also have "\<dots> \<longleftrightarrow> card ?B < capacity m0"
    by (simp add: cnt cap min_def)
  finally have "(eval_volatility m = Inr None \<longleftrightarrow> card ?B
      < unat (case lookback of None \<Rightarrow> DEFAULT_LOOKBACK | Some l \<Rightarrow> l) + 1)
    \<and> candle_eval_at_time now m = eval_volatility m"
    by (simp add: cap0 candle_eval_at_time_def)
  with fd show ?thesis by blast
qed

text \<open>
  Witness for C2: lookback 1 and candles of 60 ns. Two trades in one bucket leave the
  estimate absent; four trades in three buckets give an estimate.
\<close>

theorem eval_volatility_absent_iff_witness:
  "candle_model_init (Some 1) (Some 60)
      = Inr \<lparr>capacity = 2, candle_ns = 60, count = 0, front = 0, starts = [0, 0],
             highs = [0, 0], lows = [0, 0]\<rparr>
    \<and> unat (1 :: 64 word) + 1 = 2
    \<and> sorted (map time [\<lparr>price = 100, time = 10\<rparr>, \<lparr>price = 105, time = 20\<rparr>])
    \<and> list_all (\<lambda>t. uint (time t) < 2 ^ 63) [\<lparr>price = 100, time = 10\<rparr>, \<lparr>price = 105, time = 20\<rparr>]
    \<and> feed [\<lparr>price = 100, time = 10\<rparr>, \<lparr>price = 105, time = 20\<rparr>]
          \<lparr>capacity = 2, candle_ns = 60, count = 0, front = 0, starts = [0, 0],
           highs = [0, 0], lows = [0, 0]\<rparr>
      = Inr \<lparr>capacity = 2, candle_ns = 60, count = 1, front = 1, starts = [0, 0],
             highs = [0, 105], lows = [0, 100]\<rparr>
    \<and> card ((\<lambda>t. floor_time (time t) 60) ` set [\<lparr>price = 100, time = 10\<rparr>,
          \<lparr>price = 105, time = 20\<rparr>]) = 1
    \<and> eval_volatility \<lparr>capacity = 2, candle_ns = 60, count = 1, front = 1, starts = [0, 0],
             highs = [0, 105], lows = [0, 100]\<rparr> = Inr None
    \<and> candle_eval_at_time 7 \<lparr>capacity = 2, candle_ns = 60, count = 1, front = 1, starts = [0, 0],
             highs = [0, 105], lows = [0, 100]\<rparr> = Inr None
    \<and> sorted (map time [\<lparr>price = 100, time = 10\<rparr>, \<lparr>price = 105, time = 70\<rparr>,
          \<lparr>price = 95, time = 75\<rparr>, \<lparr>price = 110, time = 130\<rparr>])
    \<and> list_all (\<lambda>t. uint (time t) < 2 ^ 63) [\<lparr>price = 100, time = 10\<rparr>,
          \<lparr>price = 105, time = 70\<rparr>, \<lparr>price = 95, time = 75\<rparr>, \<lparr>price = 110, time = 130\<rparr>]
    \<and> feed [\<lparr>price = 100, time = 10\<rparr>, \<lparr>price = 105, time = 70\<rparr>,
          \<lparr>price = 95, time = 75\<rparr>, \<lparr>price = 110, time = 130\<rparr>]
          \<lparr>capacity = 2, candle_ns = 60, count = 0, front = 0, starts = [0, 0],
           highs = [0, 0], lows = [0, 0]\<rparr>
      = Inr \<lparr>capacity = 2, candle_ns = 60, count = 2, front = 1, starts = [60, 120],
             highs = [105, 110], lows = [95, 110]\<rparr>
    \<and> card ((\<lambda>t. floor_time (time t) 60) ` set [\<lparr>price = 100, time = 10\<rparr>,
          \<lparr>price = 105, time = 70\<rparr>, \<lparr>price = 95, time = 75\<rparr>, \<lparr>price = 110, time = 130\<rparr>]) = 3
    \<and> eval_volatility \<lparr>capacity = 2, candle_ns = 60, count = 2, front = 1, starts = [60, 120],
             highs = [105, 110], lows = [95, 110]\<rparr> \<noteq> Inr None
    \<and> candle_eval_at_time 7 \<lparr>capacity = 2, candle_ns = 60, count = 2, front = 1,
          starts = [60, 120], highs = [105, 110], lows = [95, 110]\<rparr>
      = eval_volatility \<lparr>capacity = 2, candle_ns = 60, count = 2, front = 1, starts = [60, 120],
             highs = [105, 110], lows = [95, 110]\<rparr>"
proof -
  let ?M0 = "\<lparr>capacity = 2, candle_ns = 60, count = 0, front = 0, starts = [0, 0],
             highs = [0, 0], lows = [0 :: price_interval, 0]\<rparr>"
  let ?T1 = "[\<lparr>price = 100, time = 10\<rparr>, \<lparr>price = 105, time = 20 :: timestamp\<rparr>]"
  let ?M1 = "\<lparr>capacity = 2, candle_ns = 60, count = 1, front = 1, starts = [0, 0],
             highs = [0, 105], lows = [0 :: price_interval, 100]\<rparr>"
  let ?T2 = "[\<lparr>price = 100, time = 10\<rparr>, \<lparr>price = 105, time = 70\<rparr>,
          \<lparr>price = 95, time = 75\<rparr>, \<lparr>price = 110, time = 130 :: timestamp\<rparr>]"
  let ?M2 = "\<lparr>capacity = 2, candle_ns = 60, count = 2, front = 1, starts = [60, 120],
             highs = [105, 110], lows = [95 :: price_interval, 110]\<rparr>"
  have init: "candle_model_init (Some 1) (Some 60) = Inr ?M0"
    by (simp add: candle_model_init_def time_eval Let_def replicate_2)
  have u: "unat (1 :: 64 word) + 1 = 2" by simp
  have srt1: "sorted (map time ?T1)" by simp
  have rng1: "\<forall>t\<in>set ?T1. uint (time t) < 2 ^ 63" by simp
  have la1: "list_all (\<lambda>t. uint (time t) < 2 ^ 63) ?T1" by simp
  have fd1: "feed ?T1 ?M0 = Inr ?M1"
    by (simp add: candle_add_trade_def time_eval Let_def)
  have cd1: "card ((\<lambda>t. floor_time (time t) 60) ` set ?T1) = 1"
    by (simp add: time_eval)
  have srt2: "sorted (map time ?T2)" by simp
  have rng2: "\<forall>t\<in>set ?T2. uint (time t) < 2 ^ 63" by simp
  have la2: "list_all (\<lambda>t. uint (time t) < 2 ^ 63) ?T2" by simp
  have fd2: "feed ?T2 ?M0 = Inr ?M2"
    by (simp add: candle_add_trade_def time_eval Let_def)
  have cd2: "card ((\<lambda>t. floor_time (time t) 60) ` set ?T2) = 3"
    by (simp add: time_eval)
  from eval_volatility_absent_iff [OF init srt1 rng1, of 7]
  obtain m1 where a1: "feed ?T1 ?M0 = Inr m1"
    and b1: "eval_volatility m1 = Inr None \<longleftrightarrow>
      card ((\<lambda>t. floor_time (time t) (candle_ns ?M0)) ` set ?T1)
        < unat (case Some 1 of None \<Rightarrow> DEFAULT_LOOKBACK | Some l \<Rightarrow> l) + 1"
    and c1: "candle_eval_at_time 7 m1 = eval_volatility m1"
    by blast
  from a1 have m1: "m1 = ?M1" by (simp only: fd1 sum.inject)
  from b1 have "eval_volatility m1 = Inr None" by (simp add: time_eval)
  with c1 have e1: "eval_volatility ?M1 = Inr None \<and> candle_eval_at_time 7 ?M1 = Inr None"
    by (simp only: m1 simp_thms)
  from eval_volatility_absent_iff [OF init srt2 rng2, of 7]
  obtain m2 where a2: "feed ?T2 ?M0 = Inr m2"
    and b2: "eval_volatility m2 = Inr None \<longleftrightarrow>
      card ((\<lambda>t. floor_time (time t) (candle_ns ?M0)) ` set ?T2)
        < unat (case Some 1 of None \<Rightarrow> DEFAULT_LOOKBACK | Some l \<Rightarrow> l) + 1"
    and c2: "candle_eval_at_time 7 m2 = eval_volatility m2"
    by blast
  from a2 have m2: "m2 = ?M2" by (simp only: fd2 sum.inject)
  from b2 have "eval_volatility m2 \<noteq> Inr None" by (simp add: time_eval)
  with c2 have e2: "eval_volatility ?M2 \<noteq> Inr None
      \<and> candle_eval_at_time 7 ?M2 = eval_volatility ?M2"
    by (simp only: m2 simp_thms)
  show ?thesis
    using init u srt1 la1 fd1 cd1 e1 srt2 la2 fd2 cd2 e2 by (simp only: simp_thms)
qed

text \<open>
  Counterexample for C2 as stated: with lookback 1 and candles of 10 ns, the times
  \<open>2 ^ 64 - 25\<close> and \<open>2 ^ 64 - 5\<close> are non-decreasing and fall into two distinct buckets
  (\<open>2 ^ 64 - 20\<close> and 0), which is \<open>lookback + 1\<close>; but the second \<^verbatim>\<open>add_trade\<close> throws, the
  ring keeps one candle, and \<^verbatim>\<open>eval_volatility\<close> returns an absent optional.
\<close>

theorem eval_volatility_absent_counterexample:
  "candle_model_init (Some 1) (Some 10)
      = Inr \<lparr>capacity = 2, candle_ns = 10, count = 0, front = 0, starts = [0, 0],
             highs = [0, 0], lows = [0, 0]\<rparr>
    \<and> sorted (map time [\<lparr>price = 100, time = 18446744073709551591\<rparr>,
          \<lparr>price = 100, time = 18446744073709551611\<rparr>])
    \<and> floor_time 18446744073709551591 10 = 18446744073709551596
    \<and> floor_time 18446744073709551611 10 = 0
    \<and> card ((\<lambda>t. floor_time (time t) 10) ` set [\<lparr>price = 100, time = 18446744073709551591\<rparr>,
          \<lparr>price = 100, time = 18446744073709551611\<rparr>]) = unat (1 :: 64 word) + 1
    \<and> feed [\<lparr>price = 100, time = 18446744073709551591\<rparr>]
          \<lparr>capacity = 2, candle_ns = 10, count = 0, front = 0, starts = [0, 0],
           highs = [0, 0], lows = [0, 0]\<rparr>
      = Inr \<lparr>capacity = 2, candle_ns = 10, count = 1, front = 1,
             starts = [0, 18446744073709551596], highs = [0, 100], lows = [0, 100]\<rparr>
    \<and> feed [\<lparr>price = 100, time = 18446744073709551591\<rparr>,
          \<lparr>price = 100, time = 18446744073709551611\<rparr>]
          \<lparr>capacity = 2, candle_ns = 10, count = 0, front = 0, starts = [0, 0],
           highs = [0, 0], lows = [0, 0]\<rparr>
      = Inl (Assertion ''start == starts_[ front_ ]'')
    \<and> eval_volatility \<lparr>capacity = 2, candle_ns = 10, count = 1, front = 1,
             starts = [0, 18446744073709551596], highs = [0, 100], lows = [0, 100]\<rparr>
      = Inr None"
  by (simp add: candle_model_init_def candle_add_trade_def time_eval Let_def replicate_2
      eval_volatility_def)


text \<open>
  Claim C10. For every price model state whose candle ring has a front candle, and every
  trade whose time floors to the start of that candle, \<^verbatim>\<open>add_trade\<close> returns on the candle
  model and on the price model, whatever the order of the trade's time and the previous
  trade's: the front candle is widened with the price and \<open>last_trade\<close> becomes the trade.
\<close>

theorem add_trade_same_bucket:
  assumes wf: "ring_wf (volatility_model s)" and c: "0 < count (volatility_model s)"
    and b: "floor_time (time t) (candle_ns (volatility_model s))
      = c_start (hd (candles (volatility_model s)))"
  shows "candle_add_trade t (volatility_model s) = Inr (widened t (volatility_model s))
    \<and> candles (widened t (volatility_model s))
      = \<lparr>c_start = floor_time (time t) (candle_ns (volatility_model s)),
         c_high = max (c_high (hd (candles (volatility_model s)))) (as_interval (price t)),
         c_low = min (c_low (hd (candles (volatility_model s)))) (as_interval (price t))\<rparr>
        # tl (candles (volatility_model s))
    \<and> add_trade candle_tracker t s
      = Inr (s\<lparr>volatility_model := widened t (volatility_model s),
              range_since_eval := Some (add_price (price t)
                (case range_since_eval s of
                   None \<Rightarrow> price_range_open (price t) | Some r \<Rightarrow> r)),
              last_trade := Some t\<rparr>)"
proof -
  have st: "starts (volatility_model s) ! front (volatility_model s)
      = floor_time (time t) (candle_ns (volatility_model s))"
    using b by (simp add: hd_candles [OF wf c])
  have a: "candle_add_trade t (volatility_model s) = Inr (widened t (volatility_model s))"
    by (rule candle_add_trade_same [OF c st])
  moreover have "candles (widened t (volatility_model s))
      = \<lparr>c_start = floor_time (time t) (candle_ns (volatility_model s)),
         c_high = max (c_high (hd (candles (volatility_model s)))) (as_interval (price t)),
         c_low = min (c_low (hd (candles (volatility_model s)))) (as_interval (price t))\<rparr>
        # tl (candles (volatility_model s))"
    by (simp only: widened_candles [OF wf c] b)
  moreover have "add_trade candle_tracker t s
      = Inr (s\<lparr>volatility_model := widened t (volatility_model s),
              range_since_eval := Some (add_price (price t)
                (case range_since_eval s of
                   None \<Rightarrow> price_range_open (price t) | Some r \<Rightarrow> r)),
              last_trade := Some t\<rparr>)"
    by (simp add: add_trade_def candle_tracker_def a Let_def)
  ultimately show ?thesis by blast
qed

text \<open>
  Witness for C10: after a trade at time 10, a trade at time 5 in the same bucket.
\<close>

theorem add_trade_same_bucket_witness:
  "(5 :: timestamp) < 10
    \<and> last_trade \<lparr>volatility_model = \<lparr>capacity = 2, candle_ns = 60, count = 1, front = 1,
          starts = [0, 0], highs = [0, 100], lows = [0, 100]\<rparr>,
        min_interval = 1 / 100, init_volatility = 1, timeout_ns = 60000000000,
        min_slot_ns = 500000000, last_trade = Some \<lparr>price = 100, time = 10\<rparr>,
        range_since_eval = Some \<lparr>high = 100, low = 100\<rparr>\<rparr> = Some \<lparr>price = 100, time = 10\<rparr>
    \<and> floor_time 5 60 = c_start (hd (candles \<lparr>capacity = 2, candle_ns = 60, count = 1,
          front = 1, starts = [0, 0], highs = [0, 100], lows = [0, 100]\<rparr>))
    \<and> candle_add_trade \<lparr>price = 90, time = 5\<rparr> \<lparr>capacity = 2, candle_ns = 60, count = 1,
          front = 1, starts = [0, 0], highs = [0, 100], lows = [0, 100]\<rparr>
      = Inr \<lparr>capacity = 2, candle_ns = 60, count = 1, front = 1, starts = [0, 0],
          highs = [0, 100], lows = [0, 90]\<rparr>
    \<and> add_trade candle_tracker \<lparr>price = 90, time = 5\<rparr>
        \<lparr>volatility_model = \<lparr>capacity = 2, candle_ns = 60, count = 1, front = 1,
          starts = [0, 0], highs = [0, 100], lows = [0, 100]\<rparr>,
        min_interval = 1 / 100, init_volatility = 1, timeout_ns = 60000000000,
        min_slot_ns = 500000000, last_trade = Some \<lparr>price = 100, time = 10\<rparr>,
        range_since_eval = Some \<lparr>high = 100, low = 100\<rparr>\<rparr>
      = Inr \<lparr>volatility_model = \<lparr>capacity = 2, candle_ns = 60, count = 1, front = 1,
          starts = [0, 0], highs = [0, 100], lows = [0, 90]\<rparr>,
        min_interval = 1 / 100, init_volatility = 1, timeout_ns = 60000000000,
        min_slot_ns = 500000000, last_trade = Some \<lparr>price = 90, time = 5\<rparr>,
        range_since_eval = Some \<lparr>high = 100, low = 90\<rparr>\<rparr>"
proof -
  let ?V = "\<lparr>capacity = 2, candle_ns = 60, count = 1, front = 1,
          starts = [0, 0], highs = [0, 100], lows = [0, 100]\<rparr>"
  let ?S = "\<lparr>volatility_model = ?V,
        min_interval = 1 / 100, init_volatility = 1, timeout_ns = 60000000000,
        min_slot_ns = 500000000, last_trade = Some \<lparr>price = 100, time = 10\<rparr>,
        range_since_eval = Some \<lparr>high = 100, low = 100\<rparr>\<rparr>"
  have wf: "ring_wf (volatility_model ?S)" by (simp add: ring_wf_def word_sless_alt)
  have c: "0 < count (volatility_model ?S)" by simp
  have cs: "candles ?V = [\<lparr>c_start = 0, c_high = 100, c_low = 100\<rparr>]"
    by (simp add: candles_def nth_newest_def Let_def)
  have b: "floor_time (time \<lparr>price = 90, time = 5\<rparr>) (candle_ns (volatility_model ?S))
      = c_start (hd (candles (volatility_model ?S)))"
    by (simp add: candles_def nth_newest_def Let_def time_eval)
  show ?thesis
    using add_trade_same_bucket [OF wf c b]
    by (simp add: candles_def nth_newest_def Let_def time_eval widened_def add_price_def
        std_max_def std_min_def)
qed


section \<open>Properties of the price model\<close>

lemma config_ok_init:
  assumes "standard_price_model_init v a b c d = Inr s"
  shows "config_ok s" and "last_trade s = None" and "range_since_eval s = None"
    and "volatility_model s = v"
  using assms
  by (auto simp add: standard_price_model_init_def config_ok_def Let_def split: if_splits)

text \<open>The operations keep the configuration.\<close>

lemma add_trade_config_ok:
  assumes "config_ok s" and "add_trade vm tr s = Inr s'"
  shows "config_ok s'"
proof (cases "tt_add_trade vm tr (volatility_model s)")
  case (Inl e)
  with assms(2) show ?thesis by (simp add: add_trade_def)
next
  case (Inr v)
  with assms(2) have "s' = s\<lparr>volatility_model := v,
      range_since_eval := Some (add_price (price tr)
        (case range_since_eval s of None \<Rightarrow> price_range_open (price tr) | Some r \<Rightarrow> r)),
      last_trade := Some tr\<rparr>"
    by (simp add: add_trade_def Let_def)
  with assms(1) show ?thesis by (simp add: config_ok_def)
qed

lemma eval_at_time_config_ok:
  assumes "config_ok s" and "eval_at_time vm now s = Inr (r, s')"
  shows "config_ok s'"
proof -
  have "min_interval s' = min_interval s \<and> init_volatility s' = init_volatility s
    \<and> min_slot_ns s' = min_slot_ns s \<and> timeout_ns s' = timeout_ns s"
  proof (cases "last_trade s")
    case None
    with assms(2) show ?thesis by (simp add: eval_at_time_def)
  next
    case (Some lt)
    show ?thesis
    proof (cases "tt_eval_at_time vm now (volatility_model s)")
      case (Inl e)
      with assms(2) Some show ?thesis
        by (auto simp add: eval_at_time_def Let_def split: if_splits)
    next
      case (Inr yv)
      obtain y v where "yv = (y, v)" by (cases yv)
      with assms(2) Some Inr show ?thesis
        by (cases "range_since_eval s")
          (auto simp add: eval_at_time_def Let_def split: if_splits)
    qed
  qed
  with assms(1) show ?thesis by (simp add: config_ok_def)
qed

lemma stale_nonneg:
  assumes "config_ok s" and "timeout_ns s <s d"
  shows "0 \<le>s d"
proof -
  from assms(1) have "0 \<le> sint (min_slot_ns s)" "sint (min_slot_ns s) < sint (timeout_ns s)"
    by (simp_all add: config_ok_def word_sle_eq word_sless_alt)
  moreover from assms(2) have "sint (timeout_ns s) < sint d" by (simp add: word_sless_alt)
  ultimately show ?thesis by (simp add: word_sle_eq)
qed

text \<open>
  Claim C3. For every state of a constructed price model with a last trade, and every
  volatility model \<open>vm\<close> behind it: when the time since the last trade is strictly greater
  than \<open>timeout_ns\<close>, \<^verbatim>\<open>eval_at_time\<close> returns an absent estimate and the whole state as it
  was: \<open>range_since_eval\<close>, \<open>last_trade\<close> and the volatility model's state. Nothing of
  \<open>vm\<close> appears in the result, so its \<^verbatim>\<open>eval_at_time\<close> was not called.
\<close>

theorem eval_at_time_stale:
  assumes cfg: "config_ok s" and lt: "last_trade s = Some tr"
    and stale: "timeout_ns s <s diff_times now (time tr)"
  shows "eval_at_time vm now s = Inr (None, s)"
  using stale_nonneg [OF cfg stale] stale
  by (simp add: eval_at_time_def lt Let_def)

lemma default_price_model_eq:
  "default_price_model = Inr \<lparr>volatility_model =
      \<lparr>capacity = 21, candle_ns = 60000000000, count = 0, front = 0,
       starts = replicate 21 0, highs = replicate 21 0, lows = replicate 21 0\<rparr>,
     min_interval = 1 / 100, init_volatility = 1, timeout_ns = 60000000000,
     min_slot_ns = 500000000, last_trade = None, range_since_eval = None\<rparr>"
  by (simp add: default_price_model_def candle_model_init_def standard_price_model_init_def
      DEFAULT_LOOKBACK_def DEFAULT_DURATION_def DEFAULT_TIMEOUT_def DEFAULT_MIN_SLOT_def
      DEFAULT_MIN_INTERVAL_def DEFAULT_VOLATILITY_def ns_eval Let_def word_sless_alt word_sle_eq)

lemma single_trade_model_eq:
  "single_trade_model p = \<lparr>volatility_model =
      \<lparr>capacity = 21, candle_ns = 60000000000, count = 1, front = 20,
       starts = (replicate 21 0)[20 := 0], highs = (replicate 21 0)[20 := as_interval p],
       lows = (replicate 21 0)[20 := as_interval p]\<rparr>,
     min_interval = 1 / 100, init_volatility = 1, timeout_ns = 60000000000,
     min_slot_ns = 500000000, last_trade = Some \<lparr>price = p, time = 0\<rparr>,
     range_since_eval = Some \<lparr>high = p, low = p\<rparr>\<rparr>"
  by (simp add: single_trade_model_def default_price_model_eq add_trade_def candle_tracker_def
      candle_add_trade_def floor_time_def nsecs_div_def as_ns_def Let_def add_price_def
      price_range_open_def std_max_def std_min_def)

lemma zero_price_model_eq:
  "zero_price_model = \<lparr>volatility_model =
      \<lparr>capacity = 2, candle_ns = 60, count = 2, front = 0, starts = [60, 0],
       highs = [0, 0], lows = [0, 0]\<rparr>,
     min_interval = 1 / 100, init_volatility = 1, timeout_ns = 60000000000,
     min_slot_ns = 500000000, last_trade = Some \<lparr>price = 0, time = 60\<rparr>,
     range_since_eval = Some \<lparr>high = 0, low = 0\<rparr>\<rparr>"
  by (simp add: zero_price_model_def candle_model_init_def standard_price_model_init_def
      DEFAULT_TIMEOUT_def DEFAULT_MIN_SLOT_def
      DEFAULT_MIN_INTERVAL_def DEFAULT_VOLATILITY_def ns_eval Let_def replicate_2
      add_trade_def candle_tracker_def candle_add_trade_def time_eval add_price_def
      price_range_open_def std_max_def std_min_def)


text \<open>
  The evaluation of a fresh last trade, for any volatility model behind the price model.
\<close>

lemma fresh_eval_at_time:
  assumes lt: "last_trade s = Some tr" and ge: "0 \<le>s diff_times now (time tr)"
    and le: "diff_times now (time tr) \<le>s timeout_ns s"
  shows "eval_at_time vm now s =
    (case tt_eval_at_time vm now (volatility_model s) of
       Inl e \<Rightarrow> Inl e
     | Inr (y, v) \<Rightarrow> Inr (Some \<lparr>est_price = price tr,
           conf = (case range_since_eval s of
                     None \<Rightarrow> base_conf s y (diff_times now (time tr)) (price tr)
                   | Some r \<Rightarrow> double_max (base_conf s y (diff_times now (time tr)) (price tr))
                       (interval r))\<rparr>,
         s\<lparr>volatility_model := v, range_since_eval := None\<rparr>))"
proof -
  have nst: "\<not> timeout_ns s <s diff_times now (time tr)"
    using le by (simp add: word_sle_eq word_sless_alt)
  show ?thesis
  proof (cases "tt_eval_at_time vm now (volatility_model s)")
    case (Inl e)
    then show ?thesis
      using ge nst by (simp add: eval_at_time_def lt Let_def)
  next
    case (Inr yv)
    obtain y v where yv: "yv = (y, v)" by (cases yv)
    show ?thesis
    proof (cases "range_since_eval s")
      case None
      then have "s\<lparr>volatility_model := v\<rparr> = s\<lparr>volatility_model := v, range_since_eval := None\<rparr>"
        by simp
      then show ?thesis
        using ge nst Inr yv None
        by (simp add: eval_at_time_def lt Let_def base_conf_def)
    next
      case (Some r)
      then show ?thesis
        using ge nst Inr yv
        by (simp add: eval_at_time_def lt Let_def base_conf_def)
    qed
  qed
qed

lemma eval_at_time_candle:
  assumes lt: "last_trade s = Some tr" and ge: "0 \<le>s diff_times now (time tr)"
    and le: "diff_times now (time tr) \<le>s timeout_ns s"
  shows "eval_at_time candle_tracker now s =
    (case eval_volatility (volatility_model s) of
       Inl e \<Rightarrow> Inl e
     | Inr y \<Rightarrow> Inr (Some \<lparr>est_price = price tr,
           conf = (case range_since_eval s of
                     None \<Rightarrow> base_conf s y (diff_times now (time tr)) (price tr)
                   | Some r \<Rightarrow> double_max (base_conf s y (diff_times now (time tr)) (price tr))
                       (interval r))\<rparr>,
         s\<lparr>range_since_eval := None\<rparr>))"
proof (cases "eval_volatility (volatility_model s)")
  case (Inl e)
  then show ?thesis
    by (simp add: fresh_eval_at_time [OF lt ge le] candle_tracker_def candle_eval_at_time_def)
next
  case (Inr y)
  have "s\<lparr>volatility_model := volatility_model s, range_since_eval := None\<rparr>
      = s\<lparr>range_since_eval := None\<rparr>"
    by simp
  with Inr show ?thesis
    by (simp add: fresh_eval_at_time [OF lt ge le] candle_tracker_def candle_eval_at_time_def)
qed

text \<open>
  Claim C9, as amended. For every state with a last trade and
  \<open>0 \<le> diff_times now last_trade.time \<le> timeout_ns\<close>, \<^verbatim>\<open>eval_at_time\<close> on a price model
  with a candle model either propagates the precondition failure that the candle
  model's \<^verbatim>\<open>eval_volatility\<close> signals, or returns an estimate whose price is the last
  trade's price, and the state with \<open>range_since_eval\<close> cleared and every other field
  (last trade, candle ring, configuration) as it was.
\<close>

theorem eval_at_time_fresh:
  assumes lt: "last_trade s = Some tr" and ge: "0 \<le>s diff_times now (time tr)"
    and le: "diff_times now (time tr) \<le>s timeout_ns s"
  shows "(\<forall>e. eval_volatility (volatility_model s) = Inl e \<longrightarrow>
        eval_at_time candle_tracker now s = Inl e)
    \<and> (\<forall>y. eval_volatility (volatility_model s) = Inr y \<longrightarrow>
        eval_at_time candle_tracker now s =
          Inr (Some \<lparr>est_price = price tr,
                 conf = (case range_since_eval s of
                           None \<Rightarrow> base_conf s y (diff_times now (time tr)) (price tr)
                         | Some r \<Rightarrow> double_max (base_conf s y (diff_times now (time tr)) (price tr))
                             (interval r))\<rparr>,
               s\<lparr>range_since_eval := None\<rparr>))"
  by (simp add: eval_at_time_candle [OF lt ge le])

lemma eval_at_time_Some_cases:
  assumes "eval_at_time vm now s = Inr (Some e1, s1)"
  obtains tr where "last_trade s = Some tr" and "0 \<le>s diff_times now (time tr)"
    and "diff_times now (time tr) \<le>s timeout_ns s"
proof (cases "last_trade s")
  case None
  with assms show ?thesis by (simp add: eval_at_time_def)
next
  case (Some tr)
  have ge: "0 \<le>s diff_times now (time tr)"
  proof (rule ccontr)
    assume "\<not> 0 \<le>s diff_times now (time tr)"
    with assms Some show False by (simp add: eval_at_time_def Let_def)
  qed
  have "\<not> timeout_ns s <s diff_times now (time tr)"
  proof
    assume "timeout_ns s <s diff_times now (time tr)"
    with assms Some ge show False by (simp add: eval_at_time_def Let_def)
  qed
  then have "diff_times now (time tr) \<le>s timeout_ns s"
    by (simp add: word_sle_eq word_sless_alt)
  with Some ge show ?thesis by (rule that)
qed


lemma spec_conf_nonneg:
  assumes "0 \<le>s p"
  shows "spec_conf s y d p = base_conf s y d p"
proof -
  from assms have "0 \<le> sint p" by (simp add: word_sle_eq)
  then have "0 \<le> as_interval p" unfolding as_interval_def by (rule of_int_nonneg)
  then have "\<bar>as_interval p\<bar> = as_interval p" by simp
  then show ?thesis by (simp only: spec_conf_def base_conf_def)
qed

lemma eval_at_time_first:
  assumes first: "eval_at_time vm now s = Inr (Some e1, s1)"
  obtains tr y v where "last_trade s = Some tr" and "0 \<le>s diff_times now (time tr)"
    and "diff_times now (time tr) \<le>s timeout_ns s"
    and "tt_eval_at_time vm now (volatility_model s) = Inr (y, v)"
    and "est_price e1 = price tr"
    and "s1 = s\<lparr>volatility_model := v, range_since_eval := None\<rparr>"
proof -
  from first obtain tr where lt: "last_trade s = Some tr"
    and ge: "0 \<le>s diff_times now (time tr)" and le: "diff_times now (time tr) \<le>s timeout_ns s"
    by (rule eval_at_time_Some_cases)
  show ?thesis
  proof (cases "tt_eval_at_time vm now (volatility_model s)")
    case (Inl e)
    with first show ?thesis by (simp add: fresh_eval_at_time [OF lt ge le])
  next
    case (Inr yv)
    obtain y v where yv: "yv = (y, v)" by (cases yv)
    from first Inr yv have "est_price e1 = price tr"
      and "s1 = s\<lparr>volatility_model := v, range_since_eval := None\<rparr>"
      by (auto simp add: fresh_eval_at_time [OF lt ge le])
    with lt ge le Inr yv show ?thesis by (intro that) simp_all
  qed
qed

text \<open>
  Claim C8. Let \<^verbatim>\<open>eval_at_time\<close> have returned an estimate, on a price model over any
  volatility model \<open>vm\<close> and with the last trade's price non-negative (the specification's
  domain assumption). A second call at the same timestamp on the state the first call left
  queries the volatility model again; when that query returns the volatility \<open>y\<close>, the
  second call returns the same price with the confidence
  \<open>max (vol * sqrt years * \<bar>price\<bar>) min_interval\<close>, without a range term, and otherwise
  it propagates the failure. Over the candle model the query returns what it returned in
  the first call, so the second call returns.
\<close>

theorem eval_at_time_twice:
  assumes first: "eval_at_time vm now s = Inr (Some e1, s1)"
    and pos: "0 \<le>s price (the (last_trade s))"
  shows "(case tt_eval_at_time vm now (volatility_model s1) of
        Inl e \<Rightarrow> eval_at_time vm now s1 = Inl e
      | Inr (y, v) \<Rightarrow>
          eval_at_time vm now s1 =
            Inr (Some \<lparr>est_price = est_price e1,
                   conf = spec_conf s y (diff_times now (time (the (last_trade s))))
                            (price (the (last_trade s)))\<rparr>,
                 s1\<lparr>volatility_model := v\<rparr>))
    \<and> (\<forall>c e c1.
          eval_at_time candle_tracker now c = Inr (Some e, c1) \<and> 0 \<le>s price (the (last_trade c))
          \<longrightarrow> (\<exists>y. eval_volatility (volatility_model c) = Inr y
            \<and> eval_at_time candle_tracker now c1 =
                Inr (Some \<lparr>est_price = est_price e,
                       conf = spec_conf c y (diff_times now (time (the (last_trade c))))
                                (price (the (last_trade c)))\<rparr>,
                     c1)))"
proof -
  have gen: "(case tt_eval_at_time vm now (volatility_model s1) of
        Inl e \<Rightarrow> eval_at_time vm now s1 = Inl e
      | Inr (y, v) \<Rightarrow>
          eval_at_time vm now s1 =
            Inr (Some \<lparr>est_price = est_price e1,
                   conf = spec_conf s y (diff_times now (time (the (last_trade s))))
                            (price (the (last_trade s)))\<rparr>,
                 s1\<lparr>volatility_model := v\<rparr>))"
    if first: "eval_at_time vm now s = Inr (Some e1, s1)"
      and pos: "0 \<le>s price (the (last_trade s))"
    for vm :: "'x volatility_model" and s s1 :: "'x standard_price_model" and e1
  proof -
    from first obtain tr y0 v0 where lt: "last_trade s = Some tr"
      and ge: "0 \<le>s diff_times now (time tr)" and le: "diff_times now (time tr) \<le>s timeout_ns s"
      and e1: "est_price e1 = price tr"
      and s1: "s1 = s\<lparr>volatility_model := v0, range_since_eval := None\<rparr>"
      by (rule eval_at_time_first)
    have p: "0 \<le>s price tr" using pos lt by simp
    have lt1: "last_trade s1 = Some tr" and le1: "diff_times now (time tr) \<le>s timeout_ns s1"
      and r1: "range_since_eval s1 = None"
      using lt le by (simp_all add: s1)
    have bc: "base_conf s1 y d q = base_conf s y d q" for y d q
      by (cases y) (simp_all add: base_conf_def s1)
    have upd: "s1\<lparr>volatility_model := v, range_since_eval := None\<rparr> = s1\<lparr>volatility_model := v\<rparr>"
      for v by (simp add: s1)
    show ?thesis
    proof (cases "tt_eval_at_time vm now (volatility_model s1)")
      case (Inl e)
      then show ?thesis by (simp add: fresh_eval_at_time [OF lt1 ge le1])
    next
      case (Inr yv)
      obtain y v where yv: "yv = (y, v)" by (cases yv)
      have "eval_at_time vm now s1 =
        Inr (Some \<lparr>est_price = price tr,
               conf = base_conf s1 y (diff_times now (time tr)) (price tr)\<rparr>,
             s1\<lparr>volatility_model := v, range_since_eval := None\<rparr>)"
        by (simp add: fresh_eval_at_time [OF lt1 ge le1] Inr yv r1)
      then have "eval_at_time vm now s1 =
        Inr (Some \<lparr>est_price = est_price e1,
               conf = spec_conf s y (diff_times now (time tr)) (price tr)\<rparr>,
             s1\<lparr>volatility_model := v\<rparr>)"
        by (simp only: bc upd e1 spec_conf_nonneg [OF p])
      then show ?thesis by (simp add: Inr yv lt)
    qed
  qed
  have cand: "\<exists>y. eval_volatility (volatility_model c) = Inr y
      \<and> eval_at_time candle_tracker now c1 =
          Inr (Some \<lparr>est_price = est_price e,
                 conf = spec_conf c y (diff_times now (time (the (last_trade c))))
                          (price (the (last_trade c)))\<rparr>,
               c1)"
    if cf: "eval_at_time candle_tracker now c = Inr (Some e, c1)"
      and cp: "0 \<le>s price (the (last_trade c))" for c e c1
  proof -
    from cf obtain tr y0 v0 where
      q: "tt_eval_at_time candle_tracker now (volatility_model c) = Inr (y0, v0)"
      and c1: "c1 = c\<lparr>volatility_model := v0, range_since_eval := None\<rparr>"
      by (rule eval_at_time_first)
    from q have y0: "eval_volatility (volatility_model c) = Inr y0" and v0: "v0 = volatility_model c"
      by (auto simp add: candle_tracker_def candle_eval_at_time_def split: sum.splits)
    have vm1: "volatility_model c1 = volatility_model c" by (simp add: c1 v0)
    have q1: "tt_eval_at_time candle_tracker now (volatility_model c1) = Inr (y0, volatility_model c1)"
      by (simp add: vm1 candle_tracker_def candle_eval_at_time_def y0)
    have same: "c1\<lparr>volatility_model := volatility_model c1\<rparr> = c1" by simp
    from gen [OF cf cp] have "eval_at_time candle_tracker now c1 =
        Inr (Some \<lparr>est_price = est_price e,
               conf = spec_conf c y0 (diff_times now (time (the (last_trade c))))
                        (price (the (last_trade c)))\<rparr>,
             c1)"
      by (simp only: q1 sum.case prod.case same)
    with y0 show ?thesis by blast
  qed
  from gen [OF first pos] cand show ?thesis by blast
qed

lemma min_slot_years:
  "as_interval 500000000 / as_interval NS_PER_YEAR = 1 / 63072000"
  by (simp add: as_interval_def ns_eval)

lemma min_slot_conf_bounds:
  "125 / 10000 < sqrt (1 / 63072000) * 100" "sqrt (1 / 63072000) * 100 < 126 / 10000"
proof -
  have "(125 / 1000000 :: real)\<^sup>2 < 1 / 63072000" by (simp add: power2_eq_square)
  then have "125 / 1000000 < sqrt (1 / 63072000)" by (rule real_less_rsqrt)
  then show "125 / 10000 < sqrt (1 / 63072000) * 100" by simp
  have "(1 / 63072000 :: real) < (126 / 1000000)\<^sup>2" by (simp add: power2_eq_square)
  then have "sqrt (1 / 63072000) < sqrt ((126 / 1000000)\<^sup>2)"
    by (simp only: real_sqrt_less_iff)
  then have "sqrt (1 / 63072000) < 126 / 1000000" by simp
  then show "sqrt (1 / 63072000) * 100 < 126 / 10000" by simp
qed

lemma eval_volatility_single: "eval_volatility (volatility_model (single_trade_model p)) = Inr None"
  by (simp add: single_trade_model_eq eval_volatility_def)

lemma single_trade_fields:
  "last_trade (single_trade_model p) = Some \<lparr>price = p, time = 0\<rparr>"
  "timeout_ns (single_trade_model p) = 60000000000"
  "min_slot_ns (single_trade_model p) = 500000000"
  "min_interval (single_trade_model p) = 1 / 100"
  "init_volatility (single_trade_model p) = 1"
  "range_since_eval (single_trade_model p) = Some \<lparr>high = p, low = p\<rparr>"
  by (simp_all add: single_trade_model_eq)

lemma single_trade_result:
  "eval_at_time candle_tracker 0 (single_trade_model p) =
    Inr (Some \<lparr>est_price = p,
           conf = Finite (max (sqrt (1 / 63072000) * as_interval p) (1 / 100))\<rparr>,
         (single_trade_model p)\<lparr>range_since_eval := None\<rparr>)"
proof -
  have lt: "last_trade (single_trade_model p) = Some \<lparr>price = p, time = 0\<rparr>"
    by (rule single_trade_fields)
  have ge: "0 \<le>s diff_times 0 (time \<lparr>price = p, time = 0\<rparr>)"
    by (simp add: diff_times_def as_ns_def word_sle_eq)
  have le: "diff_times 0 (time \<lparr>price = p, time = 0\<rparr>) \<le>s timeout_ns (single_trade_model p)"
    by (simp add: diff_times_def as_ns_def word_sle_eq single_trade_fields)
  have bc: "base_conf (single_trade_model p) None (diff_times 0 0) p
      = Finite (max (sqrt (1 / 63072000) * as_interval p) (1 / 100))"
    by (simp add: base_conf_def single_trade_fields diff_times_def as_ns_def std_max_def
        word_sless_alt min_slot_years max_def)
  have iv: "interval \<lparr>high = p, low = p\<rparr> = 0"
    by (simp add: interval_def as_interval_def)
  have "(0 :: real) \<le> 1 / 100" by simp
  then have "\<not> max (sqrt (1 / 63072000) * as_interval p) (1 / 100) < 0"
    by (simp only: max_def split: if_splits) auto
  then have mx: "double_max (Finite (max (sqrt (1 / 63072000) * as_interval p) (1 / 100))) 0
      = Finite (max (sqrt (1 / 63072000) * as_interval p) (1 / 100))"
    by (simp only: double_max.simps if_False)
  show ?thesis
    by (simp only: eval_at_time_candle [OF lt ge le] eval_volatility_single sum.case
        single_trade_fields option.case bc iv mx price_time.simps)
qed

text \<open>
  Claim C6, as amended. With the default configuration, after a single trade with price
  100 at time 0, \<^verbatim>\<open>eval_at_time\<close> at time 0 returns the price 100 and the confidence
  \<open>max min_interval (init_volatility * sqrt (min_slot_ns / NS_PER_YEAR) * 100)\<close>, which is
  \<open>sqrt (1 / 63072000) * 100\<close>, between 0.0125 and 0.0126: the volatility term exceeds the
  floor 0.01.
\<close>

theorem single_trade_eval:
  "eval_at_time candle_tracker 0 (single_trade_model 100) =
      Inr (Some \<lparr>est_price = 100,
             conf = Finite (max (DEFAULT_MIN_INTERVAL)
                      (DEFAULT_VOLATILITY
                       * sqrt (as_interval DEFAULT_MIN_SLOT / as_interval NS_PER_YEAR) * 100))\<rparr>,
           (single_trade_model 100)\<lparr>range_since_eval := None\<rparr>)
    \<and> max (DEFAULT_MIN_INTERVAL)
          (DEFAULT_VOLATILITY * sqrt (as_interval DEFAULT_MIN_SLOT / as_interval NS_PER_YEAR) * 100)
        = sqrt (1 / 63072000) * 100
    \<and> 125 / 10000 < sqrt (1 / 63072000) * 100
    \<and> sqrt (1 / 63072000) * 100 < 126 / 10000"
proof -
  have a: "as_interval DEFAULT_MIN_SLOT / as_interval NS_PER_YEAR = 1 / 63072000"
    by (simp add: DEFAULT_MIN_SLOT_def as_interval_def ns_eval)
  have "(1 / 100 :: real) < sqrt (1 / 63072000) * 100"
    using min_slot_conf_bounds(1) by simp
  then have m: "max (1 / 100) (sqrt (1 / 63072000) * 100) = sqrt (1 / 63072000) * 100"
    "max (sqrt (1 / 63072000) * 100) (1 / 100) = sqrt (1 / 63072000) * 100"
    by simp_all
  have p: "as_interval 100 = 100" by (simp add: as_interval_def)
  show ?thesis
    using min_slot_conf_bounds
    by (simp add: single_trade_result a m p DEFAULT_MIN_INTERVAL_def DEFAULT_VOLATILITY_def)
qed

text \<open>
  Counterexample for C6 as stated: the confidence returned is above 0.0125, so the floor
  0.01 does not dominate.
\<close>

theorem single_trade_floor_counterexample:
  "min_interval (single_trade_model 100) = 1 / 100
    \<and> conf (the (fst (projr (eval_at_time candle_tracker 0 (single_trade_model 100)))))
      = Finite (sqrt (1 / 63072000) * 100)
    \<and> 125 / 10000 < sqrt (1 / 63072000) * 100"
proof -
  have "(1 / 100 :: real) < sqrt (1 / 63072000) * 100"
    using min_slot_conf_bounds(1) by simp
  then have m: "max (sqrt (1 / 63072000) * 100) (1 / 100) = sqrt (1 / 63072000) * 100"
    by simp
  have p: "as_interval 100 = 100" by (simp add: as_interval_def)
  show ?thesis
    using min_slot_conf_bounds(1)
    by (simp add: single_trade_result m p single_trade_fields)
qed

lemma zero_price_fields:
  "last_trade zero_price_model = Some \<lparr>price = 0, time = 60\<rparr>"
  "timeout_ns zero_price_model = 60000000000"
  "volatility_model zero_price_model = \<lparr>capacity = 2, candle_ns = 60, count = 2, front = 0,
     starts = [60, 0], highs = [0, 0], lows = [0, 0]\<rparr>"
  "config_ok zero_price_model"
  by (simp_all add: zero_price_model_eq config_ok_def word_sle_eq word_sless_alt)

lemma eval_volatility_zero:
  "eval_volatility (volatility_model zero_price_model) = Inl (Assertion ''min_low > 0'')"
proof -
  have "vol_loop \<lparr>capacity = 2, candle_ns = 60, count = 2, front = 0, starts = [60, 0],
             highs = [0, 0], lows = [0, 0]\<rparr> 0 0 0 = Inl (Assertion ''min_low > 0'')"
    by (subst vol_loop.simps) (simp add: Let_def)
  then show ?thesis
    by (simp add: zero_price_fields eval_volatility_def)
qed

text \<open>
  Witness for C3: a state whose candle model would throw if it were queried; the stale
  evaluation returns without throwing.
\<close>

theorem eval_at_time_stale_witness:
  "config_ok zero_price_model
    \<and> last_trade zero_price_model = Some \<lparr>price = 0, time = 60\<rparr>
    \<and> timeout_ns zero_price_model <s diff_times 60000000061 60
    \<and> eval_at_time candle_tracker 60000000061 zero_price_model = Inr (None, zero_price_model)
    \<and> eval_volatility (volatility_model zero_price_model) = Inl (Assertion ''min_low > 0'')"
proof -
  have st: "timeout_ns zero_price_model
      <s diff_times 60000000061 (time \<lparr>price = 0, time = 60\<rparr>)"
    by (simp add: zero_price_fields diff_times_def as_ns_def word_sless_alt)
  show ?thesis
    using eval_at_time_stale [OF zero_price_fields(4) zero_price_fields(1) st, of candle_tracker]
      st zero_price_fields(1,4) eval_volatility_zero
    by simp
qed

text \<open>
  Counterexample for C9 as stated: the last trade is present and the elapsed time is 0,
  but the candle ring is full of candles at price 0, so the evaluation throws and no
  estimate is returned.
\<close>

theorem eval_at_time_throws_counterexample:
  "last_trade zero_price_model = Some \<lparr>price = 0, time = 60\<rparr>
    \<and> 0 \<le>s diff_times 60 60
    \<and> diff_times 60 60 \<le>s timeout_ns zero_price_model
    \<and> eval_at_time candle_tracker 60 zero_price_model = Inl (Assertion ''min_low > 0'')"
proof -
  have ge: "0 \<le>s diff_times 60 (time \<lparr>price = 0, time = 60\<rparr>)"
    by (simp add: diff_times_def as_ns_def word_sle_eq)
  have le: "diff_times 60 (time \<lparr>price = 0, time = 60\<rparr>) \<le>s timeout_ns zero_price_model"
    by (simp add: diff_times_def as_ns_def word_sle_eq zero_price_fields)
  show ?thesis
    using ge le zero_price_fields(1)
    by (simp add: eval_at_time_candle [OF zero_price_fields(1) ge le] eval_volatility_zero)
qed

text \<open>
  Witness for C9: the default model after one trade, evaluated at the trade's time.
\<close>

theorem eval_at_time_fresh_witness:
  "last_trade (single_trade_model 100) = Some \<lparr>price = 100, time = 0\<rparr>
    \<and> 0 \<le>s diff_times 0 0
    \<and> diff_times 0 0 \<le>s timeout_ns (single_trade_model 100)
    \<and> eval_volatility (volatility_model (single_trade_model 100)) = Inr None
    \<and> range_since_eval (single_trade_model 100) = Some \<lparr>high = 100, low = 100\<rparr>
    \<and> eval_at_time candle_tracker 0 (single_trade_model 100) =
        Inr (Some \<lparr>est_price = 100,
               conf = double_max (base_conf (single_trade_model 100) None (diff_times 0 0) 100)
                        (interval \<lparr>high = 100, low = 100\<rparr>)\<rparr>,
             (single_trade_model 100)\<lparr>range_since_eval := None\<rparr>)"
proof -
  have lt: "last_trade (single_trade_model 100) = Some \<lparr>price = 100, time = 0\<rparr>"
    by (rule single_trade_fields)
  have ge: "0 \<le>s diff_times 0 (time \<lparr>price = 100, time = 0\<rparr>)"
    by (simp add: diff_times_def as_ns_def word_sle_eq)
  have le: "diff_times 0 (time \<lparr>price = 100, time = 0\<rparr>) \<le>s timeout_ns (single_trade_model 100)"
    by (simp add: diff_times_def as_ns_def word_sle_eq single_trade_fields)
  show ?thesis
    using eval_at_time_fresh [OF lt ge le] ge le
    by (simp add: eval_volatility_single single_trade_fields)
qed

lemma two_trade_fields:
  "last_trade two_trade_model = Some \<lparr>price = 110, time = 1000000000\<rparr>"
  "timeout_ns two_trade_model = 60000000000"
  "min_slot_ns two_trade_model = 500000000"
  "min_interval two_trade_model = 1 / 100"
  "init_volatility two_trade_model = 1"
  "range_since_eval two_trade_model = Some \<lparr>high = 110, low = 100\<rparr>"
  "count (volatility_model two_trade_model) = 1"
  "capacity (volatility_model two_trade_model) = 21"
  by (simp_all add: two_trade_model_def single_trade_model_eq add_trade_def candle_tracker_def
      candle_add_trade_def time_eval Let_def add_price_def price_range_open_def std_max_def
      std_min_def)

lemma eval_volatility_two: "eval_volatility (volatility_model two_trade_model) = Inr None"
  by (simp add: eval_volatility_def two_trade_fields)

text \<open>
  Witness for C8: the default model after trades at prices 100 and 110, evaluated twice
  at the time of the second trade. The first confidence is the range term, half of
  \<open>110 - 100\<close>; the second is \<open>sqrt (1 / 63072000) * 110\<close>, which is below 0.014.
\<close>

theorem eval_at_time_twice_witness:
  "0 \<le>s price (the (last_trade two_trade_model))
    \<and> eval_at_time candle_tracker 1000000000 two_trade_model =
      Inr (Some \<lparr>est_price = 110, conf = Finite 5\<rparr>, two_trade_model\<lparr>range_since_eval := None\<rparr>)
    \<and> eval_at_time candle_tracker 1000000000 (two_trade_model\<lparr>range_since_eval := None\<rparr>) =
      Inr (Some \<lparr>est_price = 110,
             conf = spec_conf two_trade_model None (diff_times 1000000000 1000000000) 110\<rparr>,
           two_trade_model\<lparr>range_since_eval := None\<rparr>)
    \<and> spec_conf two_trade_model None (diff_times 1000000000 1000000000) 110
      = Finite (sqrt (1 / 63072000) * 110)
    \<and> 1 / 100 < sqrt (1 / 63072000) * 110
    \<and> sqrt (1 / 63072000) * 110 < 14 / 1000"
proof -
  let ?s1 = "two_trade_model\<lparr>range_since_eval := None\<rparr>"
  have pos: "0 \<le>s price (the (last_trade two_trade_model))"
    by (simp add: two_trade_fields word_sle_eq)
  have lt: "last_trade two_trade_model = Some \<lparr>price = 110, time = 1000000000\<rparr>"
    by (rule two_trade_fields)
  have ge: "0 \<le>s diff_times 1000000000 (time \<lparr>price = 110, time = 1000000000\<rparr>)"
    by (simp add: diff_times_def as_ns_def word_sle_eq)
  have le: "diff_times 1000000000 (time \<lparr>price = 110, time = 1000000000\<rparr>)
      \<le>s timeout_ns two_trade_model"
    by (simp add: diff_times_def as_ns_def word_sle_eq two_trade_fields)
  have b1: "125 / 1000000 < sqrt (1 / 63072000)"
  proof -
    have "(125 / 1000000 :: real)\<^sup>2 < 1 / 63072000" by (simp add: power2_eq_square)
    then show ?thesis by (rule real_less_rsqrt)
  qed
  have b2: "sqrt (1 / 63072000) < 126 / 1000000"
  proof -
    have "(1 / 63072000 :: real) < (126 / 1000000)\<^sup>2" by (simp add: power2_eq_square)
    then have "sqrt (1 / 63072000) < sqrt ((126 / 1000000)\<^sup>2)"
      by (simp only: real_sqrt_less_iff)
    then show ?thesis by simp
  qed
  have lo: "1 / 100 < sqrt (1 / 63072000) * 110" using b1 by simp
  have hi: "sqrt (1 / 63072000) * 110 < 14 / 1000" using b2 by simp
  have p: "as_interval 110 = 110" by (simp add: as_interval_def)
  have bc: "base_conf two_trade_model None (diff_times 1000000000 1000000000) 110
      = Finite (sqrt (1 / 63072000) * 110)"
    using lo
    by (simp add: base_conf_def two_trade_fields diff_times_def as_ns_def std_max_def
        word_sless_alt min_slot_years p)
  have sc: "spec_conf two_trade_model None (diff_times 1000000000 1000000000) 110
      = Finite (sqrt (1 / 63072000) * 110)"
    using lo
    by (simp add: spec_conf_def two_trade_fields diff_times_def as_ns_def std_max_def
        word_sless_alt min_slot_years p)
  have iv: "interval \<lparr>high = 110, low = 100\<rparr> = 5"
    by (simp add: interval_def as_interval_def)
  have mx: "double_max (Finite (sqrt (1 / 63072000) * 110)) 5 = Finite 5"
    using hi by simp
  have first: "eval_at_time candle_tracker 1000000000 two_trade_model =
      Inr (Some \<lparr>est_price = 110, conf = Finite 5\<rparr>, ?s1)"
    by (simp only: eval_at_time_candle [OF lt ge le] eval_volatility_two sum.case
        two_trade_fields option.case bc iv mx price_time.simps)
  have q: "tt_eval_at_time candle_tracker 1000000000 (volatility_model ?s1)
      = Inr (None, volatility_model ?s1)"
    by (simp add: candle_tracker_def candle_eval_at_time_def eval_volatility_two)
  have same: "?s1\<lparr>volatility_model := volatility_model ?s1\<rparr> = ?s1" by simp
  from eval_at_time_twice [OF first pos, THEN conjunct1]
  have second: "eval_at_time candle_tracker 1000000000 ?s1 =
      Inr (Some \<lparr>est_price = 110,
             conf = spec_conf two_trade_model None (diff_times 1000000000 1000000000) 110\<rparr>,
           ?s1)"
    by (simp only: q sum.case prod.case same price_estimate.simps two_trade_fields option.sel
        price_time.simps)
  show ?thesis
    using pos first second sc lo hi by (simp only: simp_thms)
qed

section \<open>Properties of the replay driver\<close>

lemma assert_each_Inr:
  "assert_each chk is = Inr u \<Longrightarrow> \<forall>i\<in>set is. chk i = None"
  by (induction "is") (auto split: option.splits)

lemma adjacent_mono:
  fixes f :: "nat \<Rightarrow> timestamp"
  assumes adj: "\<forall>i. 0 < i \<and> i < n \<longrightarrow> f (i - 1) \<le> f i"
  shows "i \<le> j \<Longrightarrow> j < n \<Longrightarrow> f i \<le> f j"
proof (induction j)
  case 0
  then show ?case by simp
next
  case (Suc j)
  show ?case
  proof (cases "i = Suc j")
    case True
    then show ?thesis by simp
  next
    case False
    with Suc.prems have ij: "i \<le> j" and jn: "j < n" by simp_all
    from Suc.IH [OF ij jn] have a: "f i \<le> f j" .
    from adj have "0 < Suc j \<and> Suc j < n \<longrightarrow> f (Suc j - 1) \<le> f (Suc j)" by (rule spec)
    with Suc.prems(2) have "f j \<le> f (Suc j)" by simp
    with a show ?thesis by (rule order_trans)
  qed
qed

lemma filter_prefix:
  assumes le: "k \<le> n" and yes: "\<forall>i<k. P (f i)"
    and no: "\<forall>i. k \<le> i \<and> i < n \<longrightarrow> \<not> P (f i)"
  shows "filter P (map f [0..<n]) = map f [0..<k]"
proof -
  have "[0..<k + (n - k)] = [0..<k] @ [k..<k + (n - k)]"
    by (rule upt_add_eq_append) simp
  then have split: "[0..<n] = [0..<k] @ [k..<n]"
    using le by simp
  have a: "filter P (map f [0..<k]) = map f [0..<k]"
    using yes by (simp add: filter_id_conv)
  have b: "filter P (map f [k..<n]) = []"
    using no by (simp add: filter_empty_conv)
  show ?thesis by (simp only: split map_append filter_append a b append_Nil2)
qed

lemma loop_eval_time_mono:
  assumes mono: "\<forall>i. 0 < i \<and> i < length (the (eval_prices t)) \<longrightarrow>
      the (eval_times t) ! (i - 1) \<le> the (eval_times t) ! i"
  shows "loop_eval_time t ei \<le> loop_eval_time t (ei + 1)"
proof (cases "ei + 1 < length (the (eval_prices t))")
  case True
  have "0 < ei + 1 \<and> ei + 1 < length (the (eval_prices t))" using True by simp
  moreover from mono have "0 < ei + 1 \<and> ei + 1 < length (the (eval_prices t))
      \<longrightarrow> the (eval_times t) ! (ei + 1 - 1) \<le> the (eval_times t) ! (ei + 1)"
    by (rule spec)
  ultimately have "the (eval_times t) ! (ei + 1 - 1) \<le> the (eval_times t) ! (ei + 1)"
    by (rule rev_mp)
  with True show ?thesis by (simp add: loop_eval_time_def)
next
  case False
  then show ?thesis by (simp add: loop_eval_time_def)
qed

lemma loop_invD:
  assumes "loop_inv t ti ei hist"
  shows "ti \<le> length (the (trade_prices t))" and "ei \<le> length (the (eval_prices t))"
    and "evals_see_earlier_trades (all_trades t) hist"
    and "list_all (\<lambda>tr. time tr < loop_eval_time t ei) (trade_events hist)"
    and "trade_events hist = rev (map (trade_at t) [0..<ti])"
    and "eval_events hist = rev (map (\<lambda>i. the (eval_times t) ! i) [0..<ei])"
proof -
  from assms have a: "ti \<le> length (the (trade_prices t)) \<and> ei \<le> length (the (eval_prices t))
    \<and> evals_see_earlier_trades (all_trades t) hist
    \<and> list_all (\<lambda>tr. time tr < loop_eval_time t ei) (trade_events hist)
    \<and> trade_events hist = rev (map (trade_at t) [0..<ti])
    \<and> eval_events hist = rev (map (\<lambda>i. the (eval_times t) ! i) [0..<ei])"
    unfolding loop_inv_def .
  from a show "ti \<le> length (the (trade_prices t))" by (elim conjE)
  from a show "ei \<le> length (the (eval_prices t))" by (elim conjE)
  from a show "evals_see_earlier_trades (all_trades t) hist" by (elim conjE)
  from a show "list_all (\<lambda>tr. time tr < loop_eval_time t ei) (trade_events hist)"
    by (elim conjE)
  from a show "trade_events hist = rev (map (trade_at t) [0..<ti])" by (elim conjE)
  from a show "eval_events hist = rev (map (\<lambda>i. the (eval_times t) ! i) [0..<ei])"
    by (elim conjE)
qed

lemma loop_inv_trade:
  assumes inv: "loop_inv t ti ei hist"
    and c: "ti < length (the (trade_prices t))"
      "the (trade_times t) ! ti < loop_eval_time t ei"
  shows "loop_inv t (ti + 1) ei (TradeEvent (trade_at t ti) # hist)"
  unfolding loop_inv_def
proof (intro conjI)
  show "ti + 1 \<le> length (the (trade_prices t))" using c(1) by simp
  show "ei \<le> length (the (eval_prices t))" by (rule loop_invD(2) [OF inv])
  show "evals_see_earlier_trades (all_trades t) (TradeEvent (trade_at t ti) # hist)"
    using loop_invD(3) [OF inv] by simp
  show "list_all (\<lambda>tr. time tr < loop_eval_time t ei)
      (trade_events (TradeEvent (trade_at t ti) # hist))"
    using loop_invD(4) [OF inv] c(2) by (simp add: trade_at_def)
  show "trade_events (TradeEvent (trade_at t ti) # hist) = rev (map (trade_at t) [0..<ti + 1])"
    using loop_invD(5) [OF inv] by simp
  show "eval_events (TradeEvent (trade_at t ti) # hist)
      = rev (map (\<lambda>i. the (eval_times t) ! i) [0..<ei])"
    using loop_invD(6) [OF inv] by simp
qed

lemma loop_inv_eval:
  assumes mono: "\<forall>i. 0 < i \<and> i < length (the (eval_prices t)) \<longrightarrow>
      the (eval_times t) ! (i - 1) \<le> the (eval_times t) ! i"
    and tsorted: "\<forall>i. 0 < i \<and> i < length (the (trade_prices t)) \<longrightarrow>
      the (trade_times t) ! (i - 1) \<le> the (trade_times t) ! i"
    and inv: "loop_inv t ti ei hist"
    and nb: "\<not> (ti < length (the (trade_prices t))
      \<and> the (trade_times t) ! ti < loop_eval_time t ei)"
    and c: "ei < length (the (eval_prices t))"
  shows "loop_inv t ti (ei + 1) (EvalEvent (loop_eval_time t ei) # hist)"
  unfolding loop_inv_def
proof (intro conjI)
  have now: "loop_eval_time t ei = the (eval_times t) ! ei"
    using c by (simp add: loop_eval_time_def)
  have lt: "list_all (\<lambda>tr. time tr < loop_eval_time t ei) (trade_events hist)"
    by (rule loop_invD(4) [OF inv])
  show "ti \<le> length (the (trade_prices t))" by (rule loop_invD(1) [OF inv])
  show "ei + 1 \<le> length (the (eval_prices t))" using c by simp
  have fed: "rev (trade_events hist) = map (trade_at t) [0..<ti]"
    by (simp only: loop_invD(5) [OF inv] rev_rev_ident)
  have yes: "\<forall>i<ti. time (trade_at t i) < loop_eval_time t ei"
  proof (intro allI impI)
    fix i assume "i < ti"
    then have "trade_at t i \<in> set (map (trade_at t) [0..<ti])" by simp
    then have "trade_at t i \<in> set (trade_events hist)"
      by (simp only: fed [symmetric] set_rev)
    with lt show "time (trade_at t i) < loop_eval_time t ei" by (simp add: list_all_iff)
  qed
  have no: "\<forall>i. ti \<le> i \<and> i < length (the (trade_prices t))
      \<longrightarrow> \<not> time (trade_at t i) < loop_eval_time t ei"
  proof (intro allI impI)
    fix i assume i: "ti \<le> i \<and> i < length (the (trade_prices t))"
    then have "ti < length (the (trade_prices t))" by simp
    with nb have "loop_eval_time t ei \<le> the (trade_times t) ! ti" by (simp add: not_less)
    moreover have "the (trade_times t) ! ti \<le> the (trade_times t) ! i"
      using i by (intro adjacent_mono [OF tsorted]) simp_all
    ultimately have "loop_eval_time t ei \<le> the (trade_times t) ! i" by (rule order_trans)
    then show "\<not> time (trade_at t i) < loop_eval_time t ei"
      by (simp add: trade_at_def not_less)
  qed
  have "filter (\<lambda>tr. time tr < loop_eval_time t ei) (all_trades t) = map (trade_at t) [0..<ti]"
    unfolding all_trades_def
    by (rule filter_prefix [where P = "\<lambda>tr. time tr < loop_eval_time t ei" and f = "trade_at t",
          OF loop_invD(1) [OF inv] yes no])
  then show "evals_see_earlier_trades (all_trades t) (EvalEvent (loop_eval_time t ei) # hist)"
    using loop_invD(3) [OF inv] fed by simp
  have step: "time tr < loop_eval_time t (ei + 1)" if "time tr < loop_eval_time t ei" for tr
    using that loop_eval_time_mono [OF mono, of ei] by (rule less_le_trans)
  have "\<forall>tr\<in>set (trade_events hist). time tr < loop_eval_time t (ei + 1)"
  proof
    fix tr assume "tr \<in> set (trade_events hist)"
    with lt have "time tr < loop_eval_time t ei" by (simp add: list_all_iff)
    then show "time tr < loop_eval_time t (ei + 1)" by (rule step)
  qed
  then show "list_all (\<lambda>tr. time tr < loop_eval_time t (ei + 1))
      (trade_events (EvalEvent (loop_eval_time t ei) # hist))"
    by (simp add: list_all_iff)
  show "trade_events (EvalEvent (loop_eval_time t ei) # hist) = rev (map (trade_at t) [0..<ti])"
    using loop_invD(5) [OF inv] by simp
  show "eval_events (EvalEvent (loop_eval_time t ei) # hist)
      = rev (map (\<lambda>i. the (eval_times t) ! i) [0..<ei + 1])"
    using loop_invD(6) [OF inv] by (simp add: now)
qed

lemma run_loop_trade_step:
  assumes "ti < length (the (trade_prices t))"
    "the (trade_times t) ! ti < loop_eval_time t ei"
  shows "run_loop pm t tol ti ei model =
    (case tt_add_trade pm (trade_at t ti) model of
       Inl e \<Rightarrow> Inl e
     | Inr model' \<Rightarrow> run_loop pm t tol (ti + 1) ei model')"
  using assms by (subst run_loop.simps) (simp add: trade_at_def)

lemma run_loop_eval_step:
  assumes "\<not> (ti < length (the (trade_prices t))
      \<and> the (trade_times t) ! ti < loop_eval_time t ei)"
    and "ei < length (the (eval_prices t))"
  shows "run_loop pm t tol ti ei model =
    (case tt_eval_at_time pm (loop_eval_time t ei) model of
       Inl e \<Rightarrow> Inl e
     | Inr (actual, model') \<Rightarrow>
         (case actual of
            Some a \<Rightarrow>
              if est_price a \<noteq> the (eval_prices t) ! ei
                then Inl (Assertion ''actual->price_ == expected_price'')
              else if \<not> double_ge (conf a) (the (eval_intervals t) ! ei * (1 - tol))
                then Inl (Assertion ''actual->conf_ >= expected_conf * ( 1 - conf_tol )'')
              else if \<not> double_le (conf a) (the (eval_intervals t) ! ei * (1 + tol))
                then Inl (Assertion ''actual->conf_ <= expected_conf * ( 1 + conf_tol )'')
              else run_loop pm t tol ti (ei + 1) model'
          | None \<Rightarrow>
              if the (eval_prices t) ! ei \<noteq> 0
                then Inl (Assertion ''expected_price == 0'')
              else if the (eval_intervals t) ! ei \<noteq> 0
                then Inl (Assertion ''expected_conf == 0'')
              else run_loop pm t tol ti (ei + 1) model'))"
  using assms by (subst run_loop.simps) (simp only: if_False if_True)

lemma run_loop_break:
  assumes "\<not> (ti < length (the (trade_prices t))
      \<and> the (trade_times t) ! ti < loop_eval_time t ei)"
    and "\<not> ei < length (the (eval_prices t))"
  shows "run_loop pm t tol ti ei model = Inr (ti, ei, model)"
  using assms by (subst run_loop.simps) (simp only: if_False)

lemma traced_add_trade:
  "tt_add_trade (traced pm) tr (m, hist) =
    (case tt_add_trade pm tr m of
       Inl e \<Rightarrow> Inl e | Inr m' \<Rightarrow> Inr (m', TradeEvent tr # hist))"
  by (simp add: traced_def)

lemma traced_eval_at_time:
  "tt_eval_at_time (traced pm) now (m, hist) =
    (case tt_eval_at_time pm now m of
       Inl e \<Rightarrow> Inl e | Inr (r, m') \<Rightarrow> Inr (r, (m', EvalEvent now # hist)))"
  by (simp add: traced_def)

lemma run_loop_traced:
  assumes mono: "\<forall>i. 0 < i \<and> i < length (the (eval_prices t)) \<longrightarrow>
      the (eval_times t) ! (i - 1) \<le> the (eval_times t) ! i"
    and tsorted: "\<forall>i. 0 < i \<and> i < length (the (trade_prices t)) \<longrightarrow>
      the (trade_times t) ! (i - 1) \<le> the (trade_times t) ! i"
  shows "run_loop (traced pm) t tol ti ei (m, hist) = Inr (ti', ei', (m', hist'))
    \<Longrightarrow> loop_inv t ti ei hist
    \<Longrightarrow> loop_inv t ti' ei' hist'
      \<and> \<not> (ti' < length (the (trade_prices t))
            \<and> the (trade_times t) ! ti' < loop_eval_time t ei')
      \<and> \<not> ei' < length (the (eval_prices t))"
proof (induction k \<equiv> "(length (the (trade_prices t)) - ti) + (length (the (eval_prices t)) - ei)"
    arbitrary: ti ei m hist rule: less_induct)
  case less
  note run = less.prems(1) and inv = less.prems(2)
  show ?case
  proof (cases "ti < length (the (trade_prices t))
      \<and> the (trade_times t) ! ti < loop_eval_time t ei")
    case True
    then have c: "ti < length (the (trade_prices t))"
      "the (trade_times t) ! ti < loop_eval_time t ei" by simp_all
    have "\<exists>m1. run_loop (traced pm) t tol (ti + 1) ei (m1, TradeEvent (trade_at t ti) # hist)
        = Inr (ti', ei', (m', hist'))"
    proof (cases "tt_add_trade pm (trade_at t ti) m")
      case (Inl e)
      with run show ?thesis
        by (simp add: run_loop_trade_step [OF c] traced_add_trade)
    next
      case (Inr m1)
      with run have "run_loop (traced pm) t tol (ti + 1) ei
          (m1, TradeEvent (trade_at t ti) # hist) = Inr (ti', ei', (m', hist'))"
        by (simp add: run_loop_trade_step [OF c] traced_add_trade)
      then show ?thesis ..
    qed
    then obtain m1 where
      rec: "run_loop (traced pm) t tol (ti + 1) ei (m1, TradeEvent (trade_at t ti) # hist)
        = Inr (ti', ei', (m', hist'))" ..
    have "(length (the (trade_prices t)) - (ti + 1)) + (length (the (eval_prices t)) - ei)
      < (length (the (trade_prices t)) - ti) + (length (the (eval_prices t)) - ei)"
      using c(1) by simp
    from less.hyps [OF this rec loop_inv_trade [OF inv c]] show ?thesis .
  next
    case False
    show ?thesis
    proof (cases "ei < length (the (eval_prices t))")
      case True
      have "\<exists>m1. run_loop (traced pm) t tol ti (ei + 1)
          (m1, EvalEvent (loop_eval_time t ei) # hist) = Inr (ti', ei', (m', hist'))"
      proof (cases "tt_eval_at_time pm (loop_eval_time t ei) m")
        case (Inl e)
        with run show ?thesis
          by (simp add: run_loop_eval_step [OF False True] traced_eval_at_time)
      next
        case (Inr rm)
        obtain r m1 where rm: "rm = (r, m1)" by (cases rm)
        show ?thesis
        proof (cases r)
          case None
          with run Inr rm have "run_loop (traced pm) t tol ti (ei + 1)
              (m1, EvalEvent (loop_eval_time t ei) # hist) = Inr (ti', ei', (m', hist'))"
            by (simp add: run_loop_eval_step [OF False True] traced_eval_at_time
                split: if_splits)
          then show ?thesis ..
        next
          case (Some a)
          with run Inr rm have "run_loop (traced pm) t tol ti (ei + 1)
              (m1, EvalEvent (loop_eval_time t ei) # hist) = Inr (ti', ei', (m', hist'))"
            by (simp add: run_loop_eval_step [OF False True] traced_eval_at_time
                split: if_splits)
          then show ?thesis ..
        qed
      qed
      then obtain m1 where
        rec: "run_loop (traced pm) t tol ti (ei + 1) (m1, EvalEvent (loop_eval_time t ei) # hist)
          = Inr (ti', ei', (m', hist'))" ..
      have "(length (the (trade_prices t)) - ti) + (length (the (eval_prices t)) - (ei + 1))
        < (length (the (trade_prices t)) - ti) + (length (the (eval_prices t)) - ei)"
        using True by simp
      from less.hyps [OF this rec loop_inv_eval [OF mono tsorted inv False True]] show ?thesis .
    next
      case nov: False
      from run have "ti' = ti" "ei' = ei" "hist' = hist"
        by (simp_all add: run_loop_break [OF False nov])
      with inv False nov show ?thesis by simp
    qed
  qed
qed

lemma validate_args_Inr:
  assumes "validate_args t = Inr u"
  shows "length (the (eval_times t)) = length (the (eval_prices t))"
    and "length (the (trade_times t)) = length (the (trade_prices t))"
  using assms by (simp_all add: validate_args_def split: if_splits)

text \<open>
  Claim C5. Run the replay driver over a model that records the calls it receives. When
  the run completes, every evaluation in the record was made after exactly the trades of
  the fixture whose times are strictly less than the evaluation's time, all of them and no
  other, in their order; and the record holds every trade and every evaluation of the
  fixture in order. So a trade that shares its timestamp with an evaluation was fed after
  that evaluation, and the state an evaluation observes results from the strictly earlier
  trades.
\<close>

theorem replay_evaluation_first:
  assumes mk: "make_model t = Inr (m0, [])"
    and run: "run (traced pm) make_model t = Inr (m, hist)"
  shows "evals_see_earlier_trades (all_trades t) hist
    \<and> trade_events hist = rev (map (trade_at t) [0..<length (the (trade_prices t))])
    \<and> eval_events hist = rev (the (eval_times t))"
proof -
  let ?echk = "\<lambda>i. if \<not> the (eval_times t) ! (i - 1) \<le> the (eval_times t) ! i
                           then Some (Assertion ''eval_times[ i - 1 ] <= eval_times[ i ]'')
                           else if \<not> 0 \<le> the (eval_intervals t) ! i
                           then Some (Assertion ''eval_confs[ i ] >= 0'')
                           else None"
  let ?tchk = "\<lambda>i. if \<not> the (trade_times t) ! (i - 1) \<le> the (trade_times t) ! i
                      then Some (Assertion ''trade_times[ i - 1 ] <= trade_times[ i ]'')
                      else None"
  let ?tol = "value_or (conf_tolerance t) (1 / 100000)"
  from run obtain u where v: "validate_args t = Inr u"
    by (cases "validate_args t") (simp_all only: run_def sum.case sum.distinct simp_thms)
  from run obtain u0 where a0: "assert_each ?tchk [1..<length (the (trade_prices t))] = Inr u0"
    by (cases "assert_each ?tchk [1..<length (the (trade_prices t))]") (simp_all only: run_def v sum.case sum.distinct simp_thms)
  from run obtain u1 where a1: "assert_each ?echk [1..<length (the (eval_prices t))] = Inr u1"
    by (cases "assert_each ?echk [1..<length (the (eval_prices t))]") (simp_all only: run_def v a0 sum.case sum.distinct simp_thms)
  from run obtain r where l: "run_loop (traced pm) t ?tol 0 0 (m0, []) = Inr r"
    by (cases "run_loop (traced pm) t ?tol 0 0 (m0, [])") (simp_all only: run_def v a0 a1 mk sum.case sum.distinct simp_thms)
  obtain ti ei m1 h1 where r: "r = (ti, ei, (m1, h1))" by (cases r) auto
  from run have fin: "ti = length (the (trade_prices t))" "ei = length (the (eval_prices t))"
    "m1 = m" "h1 = hist"
    by (simp_all only: run_def v a0 a1 mk l r sum.case prod.case sum.distinct sum.inject
        prod.inject simp_thms split: if_splits)
  have mono: "\<forall>i. 0 < i \<and> i < length (the (eval_prices t)) \<longrightarrow>
      the (eval_times t) ! (i - 1) \<le> the (eval_times t) ! i"
  proof (intro allI impI)
    fix i assume i: "0 < i \<and> i < length (the (eval_prices t))"
    then have "i \<in> set [1..<length (the (eval_prices t))]" by simp
    with assert_each_Inr [OF a1] have "?echk i = None" by blast
    then show "the (eval_times t) ! (i - 1) \<le> the (eval_times t) ! i"
      by (simp split: if_splits)
  qed
  have tsorted: "\<forall>i. 0 < i \<and> i < length (the (trade_prices t)) \<longrightarrow>
      the (trade_times t) ! (i - 1) \<le> the (trade_times t) ! i"
  proof (intro allI impI)
    fix i assume i: "0 < i \<and> i < length (the (trade_prices t))"
    then have "i \<in> set [1..<length (the (trade_prices t))]" by simp
    with assert_each_Inr [OF a0] have "?tchk i = None" by blast
    then show "the (trade_times t) ! (i - 1) \<le> the (trade_times t) ! i"
      by (simp split: if_splits)
  qed
  have inv0: "loop_inv t 0 0 []" by (simp add: loop_inv_def)
  from run_loop_traced [OF mono tsorted l [unfolded r fin] inv0]
  have inv: "loop_inv t (length (the (trade_prices t))) (length (the (eval_prices t))) hist"
    by simp
  have "map (\<lambda>i. the (eval_times t) ! i) [0..<length (the (eval_prices t))] = the (eval_times t)"
    by (simp only: validate_args_Inr(1) [OF v, symmetric] map_nth)
  then show ?thesis
    using loop_invD(3,5,6) [OF inv] by simp
qed

lemma make_stub_model_tie: "make_stub_model tie_fixture =
    Inr (\<lparr>volatility_model = None, min_interval = 1 / 100, init_volatility = 0,
          timeout_ns = 60000000000, min_slot_ns = 500000000, last_trade = None,
          range_since_eval = None\<rparr>, [])"
  by (simp add: make_stub_model_def tie_fixture_def standard_price_model_init_def
      DEFAULT_TIMEOUT_def DEFAULT_MIN_SLOT_def DEFAULT_MIN_INTERVAL_def ns_eval Let_def
      word_sle_eq word_sless_alt)

lemma validate_args_tie: "validate_args tie_fixture = Inr ()"
  by (simp add: validate_args_def tie_fixture_def value_or_def word_sle_eq word_sless_alt)

lemma all_trades_tie:
  "all_trades tie_fixture
    = [\<lparr>price = 100, time = 5\<rparr>, \<lparr>price = 110, time = 10\<rparr>, \<lparr>price = 120, time = 12\<rparr>]"
  by (simp add: all_trades_def trade_at_def tie_fixture_def upt_rec)

lemma run_loop_tie: "run_loop (traced (standard_tracker stub_volatility_model)) tie_fixture (1 / 100000) 0 0
    (\<lparr>volatility_model = None, min_interval = 1 / 100, init_volatility = 0,
          timeout_ns = 60000000000, min_slot_ns = 500000000, last_trade = None,
          range_since_eval = None\<rparr>, [])
   = Inr (3, 2, \<lparr>volatility_model = None, min_interval = 1 / 100, init_volatility = 0,
          timeout_ns = 60000000000, min_slot_ns = 500000000,
          last_trade = Some \<lparr>price = 120, time = 12\<rparr>,
          range_since_eval = Some \<lparr>high = 120, low = 120\<rparr>\<rparr>,
       [TradeEvent \<lparr>price = 120, time = 12\<rparr>, EvalEvent 11, TradeEvent \<lparr>price = 110, time = 10\<rparr>,
        EvalEvent 10, TradeEvent \<lparr>price = 100, time = 5\<rparr>])"
  by (simp add: run_loop.simps tie_fixture_def loop_eval_time_def traced_def
      standard_tracker_def stub_volatility_model_def add_trade_def eval_at_time_def Let_def
      add_price_def price_range_open_def std_max_def std_min_def interval_def time_eval ns_eval)

lemma run_tie: "run (traced (standard_tracker stub_volatility_model)) make_stub_model tie_fixture
   = Inr (\<lparr>volatility_model = None, min_interval = 1 / 100, init_volatility = 0,
          timeout_ns = 60000000000, min_slot_ns = 500000000,
          last_trade = Some \<lparr>price = 120, time = 12\<rparr>,
          range_since_eval = Some \<lparr>high = 120, low = 120\<rparr>\<rparr>,
       [TradeEvent \<lparr>price = 120, time = 12\<rparr>, EvalEvent 11, TradeEvent \<lparr>price = 110, time = 10\<rparr>,
        EvalEvent 10, TradeEvent \<lparr>price = 100, time = 5\<rparr>])"
proof -
  have c: "conf_tolerance tie_fixture = None" "the (trade_prices tie_fixture) = [100, 110, 120]"
    "the (trade_times tie_fixture) = [5, 10, 12]" "the (eval_prices tie_fixture) = [100, 110]"
    "the (eval_times tie_fixture) = [10, 11]"
    "the (eval_intervals tie_fixture) = [1 / 100, 1 / 100]"
    by (simp_all add: tie_fixture_def)
  have u: "[1..<length [100 :: price_val, 110, 120]] = [1, 2]"
    "[1..<length [100 :: price_val, 110]] = [1]"
    by (simp_all add: upt_rec)
  show ?thesis
    unfolding run_def validate_args_tie make_stub_model_tie c u value_or_def
    by (simp add: run_loop_tie)
qed

text \<open>
  Witness for C5: trades at times 5, 10 and 12 and evaluations at times 10 and 11. The
  evaluation at 10 is recorded after the trade at 5 and before the trade at 10, and the
  evaluation at 11 after the trades at 5 and 10 and before the trade at 12.
\<close>

theorem replay_evaluation_first_witness:
  "make_stub_model tie_fixture =
      Inr (\<lparr>volatility_model = None, min_interval = 1 / 100, init_volatility = 0,
            timeout_ns = 60000000000, min_slot_ns = 500000000, last_trade = None,
            range_since_eval = None\<rparr>, [])
    \<and> run (traced (standard_tracker stub_volatility_model)) make_stub_model tie_fixture =
      Inr (\<lparr>volatility_model = None, min_interval = 1 / 100, init_volatility = 0,
            timeout_ns = 60000000000, min_slot_ns = 500000000,
            last_trade = Some \<lparr>price = 120, time = 12\<rparr>,
            range_since_eval = Some \<lparr>high = 120, low = 120\<rparr>\<rparr>,
           [TradeEvent \<lparr>price = 120, time = 12\<rparr>, EvalEvent 11,
            TradeEvent \<lparr>price = 110, time = 10\<rparr>, EvalEvent 10,
            TradeEvent \<lparr>price = 100, time = 5\<rparr>])
    \<and> all_trades tie_fixture
      = [\<lparr>price = 100, time = 5\<rparr>, \<lparr>price = 110, time = 10\<rparr>, \<lparr>price = 120, time = 12\<rparr>]
    \<and> evals_see_earlier_trades (all_trades tie_fixture)
         [TradeEvent \<lparr>price = 120, time = 12\<rparr>, EvalEvent 11,
          TradeEvent \<lparr>price = 110, time = 10\<rparr>, EvalEvent 10,
          TradeEvent \<lparr>price = 100, time = 5\<rparr>]
    \<and> eval_events [TradeEvent \<lparr>price = 120, time = 12\<rparr>, EvalEvent 11,
          TradeEvent \<lparr>price = 110, time = 10\<rparr>, EvalEvent 10,
          TradeEvent \<lparr>price = 100, time = 5\<rparr>] = [11, 10]
    \<and> \<not> evals_see_earlier_trades (all_trades tie_fixture)
         [TradeEvent \<lparr>price = 120, time = 12\<rparr>, EvalEvent 11, EvalEvent 10,
          TradeEvent \<lparr>price = 110, time = 10\<rparr>, TradeEvent \<lparr>price = 100, time = 5\<rparr>]
    \<and> \<not> evals_see_earlier_trades (all_trades tie_fixture)
         [TradeEvent \<lparr>price = 120, time = 12\<rparr>, TradeEvent \<lparr>price = 110, time = 10\<rparr>,
          EvalEvent 11, EvalEvent 10, TradeEvent \<lparr>price = 100, time = 5\<rparr>]"
proof -
  have no1: "\<not> evals_see_earlier_trades (all_trades tie_fixture)
         [TradeEvent \<lparr>price = 120, time = 12\<rparr>, EvalEvent 11, EvalEvent 10,
          TradeEvent \<lparr>price = 110, time = 10\<rparr>, TradeEvent \<lparr>price = 100, time = 5\<rparr>]"
    by (simp add: all_trades_tie)
  have no2: "\<not> evals_see_earlier_trades (all_trades tie_fixture)
         [TradeEvent \<lparr>price = 120, time = 12\<rparr>, TradeEvent \<lparr>price = 110, time = 10\<rparr>,
          EvalEvent 11, EvalEvent 10, TradeEvent \<lparr>price = 100, time = 5\<rparr>]"
    by (simp add: all_trades_tie)
  show ?thesis
    using replay_evaluation_first [OF make_stub_model_tie run_tie] make_stub_model_tie run_tie
      all_trades_tie no1 no2
    by simp
qed

end
